theory Spec2Isabelle
  imports Complex_Main "HOL-Library.Word"
begin

section \<open>Audio utilities (services/audioUtils)\<close>

text \<open>
  A \<^verbatim>\<open>Uint8Array\<close> is a list of bytes. The arrays this program decodes and encodes are
  built by \<^verbatim>\<open>base64ToUint8Array\<close>, which allocates a fresh array, so the array and its
  underlying \<^verbatim>\<open>ArrayBuffer\<close> hold the same bytes. Sample rates are whole numbers of Hz.
  Sample values and times are JavaScript numbers; every value computed here (a 16-bit
  integer divided by a power of two, a remainder of two times) is exact in binary floating
  point, so they are modelled as reals.
\<close>

type_synonym byte = "8 word"

datatype js_error = RangeError | TypeError | NotSupportedError

subsection \<open>Typed-array view\<close>

text \<open>
  \<^verbatim>\<open>new Int16Array(buffer)\<close> reinterprets the bytes pairwise in platform byte order
  (little-endian on every platform that runs the program) and throws a \<^verbatim>\<open>RangeError\<close>
  when the byte length is not a multiple of the element size 2.
\<close>

fun int16_view :: "byte list \<Rightarrow> 16 word list" where
  "int16_view (lo # hi # rest) = word_cat hi lo # int16_view rest"
| "int16_view _ = []"

definition new_Int16Array :: "byte list \<Rightarrow> js_error + 16 word list" where
  "new_Int16Array buffer =
     (if length buffer mod 2 \<noteq> 0 then Inl RangeError else Inr (int16_view buffer))"

subsection \<open>AudioBuffer\<close>

record audio_buffer =
  numberOfChannels :: nat
  buf_length :: nat
  sampleRate :: nat
  channels :: "real list list"

definition duration :: "audio_buffer \<Rightarrow> real" where
  "duration b = real (buf_length b) / real (sampleRate b)"

text \<open>
  The \<^verbatim>\<open>AudioContext\<close> is the platform's: its state, and the range of sample rates its
  \<^verbatim>\<open>createBuffer\<close> accepts, which differs between implementations (every implementation
  accepts 8000 to 96000 Hz).
\<close>

datatype ctx_state = Suspended | Running

record audio_context =
  context_state :: ctx_state
  minSampleRate :: nat
  maxSampleRate :: nat

definition rate_supported :: "audio_context \<Rightarrow> nat \<Rightarrow> bool" where
  "rate_supported ctx rate \<longleftrightarrow> 0 < rate \<and> minSampleRate ctx \<le> rate \<and> rate \<le> maxSampleRate ctx"

text \<open>
  \<^verbatim>\<open>ctx.createBuffer(numChannels, frameCount, sampleRate)\<close> allocates a buffer of
  \<open>numChannels\<close> channels of \<open>frameCount\<close> zero samples. It throws a \<^verbatim>\<open>NotSupportedError\<close>
  when an argument is zero or the sample rate is outside the range the context supports.
  (The platform's upper limit on the number of channels, at least 32, is not reached by the
  one channel this program asks for.)
\<close>

definition createBuffer :: "audio_context \<Rightarrow> nat \<Rightarrow> nat \<Rightarrow> nat \<Rightarrow> js_error + audio_buffer" where
  "createBuffer ctx numChannels frameCount rate =
     (if numChannels = 0 \<or> frameCount = 0 \<or> \<not> rate_supported ctx rate
      then Inl NotSupportedError
      else Inr \<lparr>numberOfChannels = numChannels, buf_length = frameCount, sampleRate = rate,
                channels = replicate numChannels (replicate frameCount 0)\<rparr>)"

subsection \<open>decodeAudioData\<close>

text \<open>
  The inner loop \<^verbatim>\<open>for (i = 0; i < frameCount; i++) channelData[i] = dataInt16[i * numChannels + channel] / 32768.0\<close>
  and the outer loop over the channels. The component calls the function with three
  arguments, so \<open>numChannels\<close> has its default value 1.
\<close>

definition fill_channel :: "16 word list \<Rightarrow> nat \<Rightarrow> nat \<Rightarrow> nat \<Rightarrow> real list \<Rightarrow> real list" where
  "fill_channel dataInt16 numChannels channel frameCount channelData =
     foldl (\<lambda>cd i. cd[i := real_of_int (sint (dataInt16 ! (i * numChannels + channel))) / 32768])
       channelData [0..<frameCount]"

definition fill_buffer :: "16 word list \<Rightarrow> nat \<Rightarrow> nat \<Rightarrow> audio_buffer \<Rightarrow> audio_buffer" where
  "fill_buffer dataInt16 numChannels frameCount buffer =
     foldl (\<lambda>b channel. b\<lparr>channels := (channels b)
                [channel := fill_channel dataInt16 numChannels channel frameCount (channels b ! channel)]\<rparr>)
       buffer [0..<numChannels]"

definition decodeAudioData :: "byte list \<Rightarrow> audio_context \<Rightarrow> nat \<Rightarrow> js_error + audio_buffer" where
  "decodeAudioData data ctx rate =
     (let numChannels = 1 in
      case new_Int16Array data of
        Inl e \<Rightarrow> Inl e
      | Inr dataInt16 \<Rightarrow>
          (let frameCount = length dataInt16 div numChannels
           in case createBuffer ctx numChannels frameCount rate of
                Inl e \<Rightarrow> Inl e
              | Inr buffer \<Rightarrow> Inr (fill_buffer dataInt16 numChannels frameCount buffer)))"

subsection \<open>createWavBlob\<close>

text \<open>
  A \<^verbatim>\<open>DataView\<close> setter throws a \<^verbatim>\<open>RangeError\<close> (here \<open>None\<close>) when the write would pass
  the end of the buffer. Values are reduced modulo the field width, bytes are written
  little-endian (the \<^verbatim>\<open>true\<close> argument of every call).
\<close>

definition setUint8 :: "byte list \<Rightarrow> nat \<Rightarrow> nat \<Rightarrow> byte list option" where
  "setUint8 view offset v =
     (if offset + 1 \<le> length view then Some (view[offset := of_nat v]) else None)"

definition setUint16 :: "byte list \<Rightarrow> nat \<Rightarrow> nat \<Rightarrow> byte list option" where
  "setUint16 view offset v =
     (if offset + 2 \<le> length view
      then Some (view[offset := of_nat v, offset + 1 := of_nat (v div 256)])
      else None)"

definition setUint32 :: "byte list \<Rightarrow> nat \<Rightarrow> nat \<Rightarrow> byte list option" where
  "setUint32 view offset v =
     (if offset + 4 \<le> length view
      then Some (view[offset := of_nat v, offset + 1 := of_nat (v div 256),
                      offset + 2 := of_nat (v div 65536), offset + 3 := of_nat (v div 16777216)])
      else None)"

fun writeString :: "byte list \<Rightarrow> nat \<Rightarrow> string \<Rightarrow> byte list option" where
  "writeString view offset [] = Some view"
| "writeString view offset (c # cs) =
     (case setUint8 view offset (of_char c) of
        None \<Rightarrow> None
      | Some view' \<Rightarrow> writeString view' (Suc offset) cs)"

text \<open>\<^verbatim>\<open>new Uint8Array(buffer, 44).set(samples)\<close>: copy \<open>samples\<close> into the buffer from
  byte \<open>offset\<close> on; a \<^verbatim>\<open>RangeError\<close> when they do not fit.\<close>

definition set_from :: "byte list \<Rightarrow> nat \<Rightarrow> byte list \<Rightarrow> byte list option" where
  "set_from buffer offset samples =
     (if offset + length samples \<le> length buffer
      then Some (take offset buffer @ samples @ drop (offset + length samples) buffer)
      else None)"

record blob =
  blob_bytes :: "byte list"
  blob_type :: string

definition createWavBlob :: "byte list \<Rightarrow> nat \<Rightarrow> blob option" where
  "createWavBlob samples rate =
     Option.bind (writeString (replicate (44 + length samples) 0) 0 ''RIFF'') (\<lambda>v.
     Option.bind (setUint32 v 4 (36 + length samples)) (\<lambda>v.
     Option.bind (writeString v 8 ''WAVE'') (\<lambda>v.
     Option.bind (writeString v 12 ''fmt '') (\<lambda>v.
     Option.bind (setUint32 v 16 16) (\<lambda>v.
     Option.bind (setUint16 v 20 1) (\<lambda>v.
     Option.bind (setUint16 v 22 1) (\<lambda>v.
     Option.bind (setUint32 v 24 rate) (\<lambda>v.
     Option.bind (setUint32 v 28 (rate * 2)) (\<lambda>v.
     Option.bind (setUint16 v 32 2) (\<lambda>v.
     Option.bind (setUint16 v 34 16) (\<lambda>v.
     Option.bind (writeString v 36 ''data'') (\<lambda>v.
     Option.bind (setUint32 v 40 (length samples)) (\<lambda>v.
     Option.bind (set_from v 44 samples) (\<lambda>buffer.
     Some \<lparr>blob_bytes = buffer, blob_type = ''audio/wav''\<rparr>))))))))))))))"

text \<open>Reading the header back: unsigned little-endian fields of a byte string.\<close>

definition getUint16 :: "byte list \<Rightarrow> nat \<Rightarrow> nat" where
  "getUint16 view offset = unat (view ! offset) + 256 * unat (view ! (offset + 1))"

definition getUint32 :: "byte list \<Rightarrow> nat \<Rightarrow> nat" where
  "getUint32 view offset =
     unat (view ! offset) + 256 * unat (view ! (offset + 1))
       + 65536 * unat (view ! (offset + 2)) + 16777216 * unat (view ! (offset + 3))"

section \<open>The player component (components/DubbedPlayer)\<close>

text \<open>
  The component's refs and React state are one record; every handler is a function from
  state to state. Handlers run to completion, and the state they set is the state the next
  event sees (React applies the updates of a discrete event before the next one is
  dispatched), so an \<^verbatim>\<open>async\<close> handler whose only \<^verbatim>\<open>await\<close> is the resume of the audio
  context is one step.

  The record describes the component once mounted: the mount effect has created the audio
  context's three gain nodes, so \<^verbatim>\<open>voiceGainRef.current\<close>, \<^verbatim>\<open>bgGainRef.current\<close> and
  \<^verbatim>\<open>originalGainRef.current\<close> are the fields \<open>voiceGain\<close>, \<open>bgGain\<close>, \<open>originalGain\<close>.
  Buffer sources and recorders are objects shared with closures, so they live in stores
  (\<open>sources\<close>, \<open>recorders\<close>) and the refs hold indices into them. Media time is never
  negative.
\<close>

datatype channel = Voice | Background | Original

datatype export_kind = Video | Audio

datatype out_node = Destination | StreamDest nat

record gain_node =
  gain_value :: real
  outputs :: "out_node set"

record buffer_source =
  src_buffer :: audio_buffer
  src_loop :: bool
  src_output :: "channel option"
  src_offset :: "real option"
  src_stopped :: bool

datatype recorder_state = Recording | Stopping | Inactive

record recorder =
  rec_kind :: export_kind
  rec_dest :: nat
  rec_state :: recorder_state

datatype ended_handler = NoHandler | ExportEnded nat | PlainEnded

datatype 'a decode_result = Decoded 'a | DecodeFailed

record player =
  audioData :: "byte list"
  sampleRateProp :: nat
  backgroundAudioFile :: bool
  captureStream :: bool
  videoRef :: bool
  video_currentTime :: real
  video_paused :: bool
  video_onended :: ended_handler
  audioContextRef :: "audio_context option"
  voiceSourceRef :: "nat option"
  voiceGain :: gain_node
  voiceBufferRef :: "audio_buffer option"
  bgSourceRef :: "nat option"
  bgGain :: gain_node
  bgBufferRef :: "audio_buffer option"
  originalGain :: gain_node
  destRef :: "nat option"
  mediaRecorderRef :: "nat option"
  chunksRef :: "nat list"
  sources :: "buffer_source list"
  dests :: nat
  recorders :: "recorder list"
  isPlaying :: bool
  isReady :: bool
  isRendering :: bool
  renderType :: "export_kind option"
  currentTime :: real
  volume :: real
  bgVolume :: real
  originalVolume :: real
  isVoiceMuted :: bool
  isBgMuted :: bool
  isOriginalMuted :: bool
  downloads :: "string list"
  alerts :: "string list"
  console :: "string list"

subsection \<open>Playback\<close>

text \<open>
  \<^verbatim>\<open>try { source.stop() } catch(e) {}\<close> followed by \<^verbatim>\<open>source.disconnect()\<close>: \<^verbatim>\<open>stop\<close>
  throws on a source that was never started, and the exception is swallowed.
\<close>

definition stop_source :: "buffer_source \<Rightarrow> buffer_source" where
  "stop_source src =
     src\<lparr>src_stopped := (src_offset src \<noteq> None \<or> src_stopped src), src_output := None\<rparr>"

definition stopSources :: "player \<Rightarrow> player" where
  "stopSources s =
     (let s1 = (case voiceSourceRef s of
                  None \<Rightarrow> s
                | Some i \<Rightarrow> s\<lparr>sources := (sources s)[i := stop_source (sources s ! i)],
                              voiceSourceRef := None\<rparr>)
      in case bgSourceRef s1 of
           None \<Rightarrow> s1
         | Some j \<Rightarrow> s1\<lparr>sources := (sources s1)[j := stop_source (sources s1 ! j)],
                        bgSourceRef := None\<rparr>)"

text \<open>
  The JavaScript remainder \<^verbatim>\<open>a % b\<close>: the quotient is truncated towards zero, and the
  result is \<^verbatim>\<open>NaN\<close> (here \<open>None\<close>) for a zero divisor.
\<close>

definition js_rem :: "real \<Rightarrow> real \<Rightarrow> real option" where
  "js_rem a b =
     (if b = 0 then None
      else Some (a - b * of_int (if 0 \<le> a / b then \<lfloor>a / b\<rfloor> else \<lceil>a / b\<rceil>)))"

definition voice_source :: "audio_buffer \<Rightarrow> real \<Rightarrow> buffer_source" where
  "voice_source vb currentVidTime =
     \<lparr>src_buffer = vb, src_loop = False, src_output = Some Voice,
      src_offset = (if currentVidTime < duration vb then Some currentVidTime else None),
      src_stopped = False\<rparr>"

definition bg_source :: "audio_buffer \<Rightarrow> real option \<Rightarrow> buffer_source" where
  "bg_source bb bgOffset =
     \<lparr>src_buffer = bb, src_loop = True, src_output = Some Background,
      src_offset = bgOffset, src_stopped = False\<rparr>"

text \<open>
  \<open>play\<close>. \<^verbatim>\<open>source.start(0, NaN)\<close> throws a \<^verbatim>\<open>TypeError\<close>: the background source is then
  created and referenced but not started, and the rest of \<open>play\<close> (starting the video,
  \<^verbatim>\<open>setIsPlaying(true)\<close>) does not run; \<open>play_rejects\<close> tells the caller that awaits it.
\<close>

definition play :: "player \<Rightarrow> player" where
  "play s =
     (if \<not> videoRef s \<or> audioContextRef s = None then s
      else
        let s1 = stopSources
                   (s\<lparr>audioContextRef :=
                        map_option (\<lambda>ctx. ctx\<lparr>context_state := Running\<rparr>) (audioContextRef s)\<rparr>);
            currentVidTime = video_currentTime s1;
            s2 = (case voiceBufferRef s1 of
                    None \<Rightarrow> s1
                  | Some vb \<Rightarrow>
                      s1\<lparr>sources := sources s1 @ [voice_source vb currentVidTime],
                         voiceSourceRef := Some (length (sources s1))\<rparr>)
        in case bgBufferRef s2 of
             None \<Rightarrow> s2\<lparr>video_paused := False, isPlaying := True\<rparr>
           | Some bb \<Rightarrow>
               (case js_rem currentVidTime (duration bb) of
                  None \<Rightarrow>
                    s2\<lparr>sources := sources s2 @ [bg_source bb None],
                       bgSourceRef := Some (length (sources s2))\<rparr>
                | Some bgOffset \<Rightarrow>
                    s2\<lparr>sources := sources s2 @ [bg_source bb (Some bgOffset)],
                       bgSourceRef := Some (length (sources s2)),
                       video_paused := False, isPlaying := True\<rparr>))"

definition play_rejects :: "player \<Rightarrow> bool" where
  "play_rejects s \<longleftrightarrow>
     videoRef s \<and> audioContextRef s \<noteq> None
     \<and> (case bgBufferRef s of
          None \<Rightarrow> False
        | Some bb \<Rightarrow> js_rem (video_currentTime s) (duration bb) = None)"

definition pause :: "player \<Rightarrow> player" where
  "pause s =
     (stopSources (if videoRef s then s\<lparr>video_paused := True\<rparr> else s))\<lparr>isPlaying := False\<rparr>"

definition togglePlay :: "player \<Rightarrow> player" where
  "togglePlay s = (if isPlaying s then pause s else play s)"

definition handleSeek :: "real \<Rightarrow> player \<Rightarrow> player" where
  "handleSeek time s =
     (let s1 = s\<lparr>currentTime := time\<rparr>
      in if videoRef s1
         then (let s2 = s1\<lparr>video_currentTime := time\<rparr>
               in if isPlaying s2 then play s2 else s2)
         else s1)"

subsection \<open>Volume and mute effects\<close>

definition voiceGainEffect :: "player \<Rightarrow> player" where
  "voiceGainEffect s =
     s\<lparr>voiceGain := (voiceGain s)\<lparr>gain_value := (if isVoiceMuted s then 0 else volume s)\<rparr>\<rparr>"

definition bgGainEffect :: "player \<Rightarrow> player" where
  "bgGainEffect s =
     s\<lparr>bgGain := (bgGain s)\<lparr>gain_value := (if isBgMuted s then 0 else bgVolume s)\<rparr>\<rparr>"

definition originalGainEffect :: "player \<Rightarrow> player" where
  "originalGainEffect s =
     s\<lparr>originalGain :=
         (originalGain s)\<lparr>gain_value := (if isOriginalMuted s then 0 else originalVolume s)\<rparr>\<rparr>"

text \<open>The sliders' \<^verbatim>\<open>onChange\<close> and the mute buttons' \<^verbatim>\<open>onClick\<close>, each followed by the
  effect that depends on the state it sets.\<close>

fun setVolume :: "channel \<Rightarrow> real \<Rightarrow> player \<Rightarrow> player" where
  "setVolume Voice v s = voiceGainEffect (s\<lparr>volume := v\<rparr>)"
| "setVolume Background v s = bgGainEffect (s\<lparr>bgVolume := v\<rparr>)"
| "setVolume Original v s = originalGainEffect (s\<lparr>originalVolume := v\<rparr>)"

fun setMuted :: "channel \<Rightarrow> bool \<Rightarrow> player \<Rightarrow> player" where
  "setMuted Voice m s = voiceGainEffect (s\<lparr>isVoiceMuted := m\<rparr>)"
| "setMuted Background m s = bgGainEffect (s\<lparr>isBgMuted := m\<rparr>)"
| "setMuted Original m s = originalGainEffect (s\<lparr>isOriginalMuted := m\<rparr>)"

fun muted :: "channel \<Rightarrow> player \<Rightarrow> bool" where
  "muted Voice s = isVoiceMuted s"
| "muted Background s = isBgMuted s"
| "muted Original s = isOriginalMuted s"

fun stored_gain :: "channel \<Rightarrow> player \<Rightarrow> real" where
  "stored_gain Voice s = volume s"
| "stored_gain Background s = bgVolume s"
| "stored_gain Original s = originalVolume s"

fun gain_of :: "channel \<Rightarrow> player \<Rightarrow> gain_node" where
  "gain_of Voice s = voiceGain s"
| "gain_of Background s = bgGain s"
| "gain_of Original s = originalGain s"

definition toggleMute :: "channel \<Rightarrow> player \<Rightarrow> player" where
  "toggleMute c s = setMuted c (\<not> muted c s) s"

subsection \<open>Decoding effects\<close>

text \<open>
  The effect on \<^verbatim>\<open>[audioData, sampleRate]\<close>: a decoding error is caught and logged, the
  voice buffer and \<open>isReady\<close> are set only on success.
\<close>

definition decodeTTS :: "player \<Rightarrow> player" where
  "decodeTTS s =
     (case audioContextRef s of
        None \<Rightarrow> s
      | Some ctx \<Rightarrow>
          (case decodeAudioData (audioData s) ctx (sampleRateProp s) of
             Inr buffer \<Rightarrow> s\<lparr>voiceBufferRef := Some buffer, isReady := True\<rparr>
           | Inl e \<Rightarrow> s\<lparr>console := console s @ [''Audio decoding error'']\<rparr>))"

text \<open>
  The effect on \<^verbatim>\<open>[backgroundAudioFile]\<close>. Its argument is \<open>None\<close> when the prop is null,
  and otherwise what the platform's \<^verbatim>\<open>ctx.decodeAudioData\<close> makes of the file's bytes.
\<close>

definition loadBg :: "audio_buffer decode_result option \<Rightarrow> player \<Rightarrow> player" where
  "loadBg file s =
     (case file of
        None \<Rightarrow> s\<lparr>bgBufferRef := None\<rparr>
      | Some decoding \<Rightarrow>
          if audioContextRef s = None then s\<lparr>bgBufferRef := None\<rparr>
          else (case decoding of
                  Decoded buffer \<Rightarrow> s\<lparr>bgBufferRef := Some buffer\<rparr>
                | DecodeFailed \<Rightarrow>
                    s\<lparr>console := console s @ [''Failed to decode background audio'']\<rparr>))"

subsection \<open>Export\<close>

definition connect :: "gain_node \<Rightarrow> out_node \<Rightarrow> gain_node" where
  "connect g d = g\<lparr>outputs := insert d (outputs g)\<rparr>"

definition disconnect :: "gain_node \<Rightarrow> out_node \<Rightarrow> gain_node" where
  "disconnect g d = g\<lparr>outputs := outputs g - {d}\<rparr>"

definition export_filename :: "export_kind \<Rightarrow> string" where
  "export_filename type =
     (if type = Video then ''dubbed_video_export.webm'' else ''dubbed_audio_mix.webm'')"

text \<open>
  \<open>performExport\<close>, up to the assignment of the video's \<^verbatim>\<open>onended\<close> handler. The new
  recorder is appended to the store in state \<open>Recording\<close> (\<^verbatim>\<open>recorder.start()\<close>); its
  \<^verbatim>\<open>onstop\<close> and the \<^verbatim>\<open>onended\<close> handler are \<open>recorder_onstop\<close> and \<open>video_ended\<close> below.
\<close>

definition performExport :: "export_kind \<Rightarrow> player \<Rightarrow> player" where
  "performExport type s =
     (if \<not> videoRef s \<or> audioContextRef s = None \<or> voiceBufferRef s = None then s
      else
        let s1 = pause (s\<lparr>isRendering := True, renderType := Some type\<rparr>);
            dest = dests s1;
            s2 = s1\<lparr>dests := Suc dest, destRef := Some dest,
                    voiceGain := connect (voiceGain s1) (StreamDest dest),
                    bgGain := connect (bgGain s1) (StreamDest dest),
                    originalGain := connect (originalGain s1) (StreamDest dest)\<rparr>
        in if type = Video \<and> \<not> captureStream s2
           then s2\<lparr>alerts := alerts s2 @ [''Video capture is not supported in this browser.''],
                   isRendering := False\<rparr>
           else
             let rid = length (recorders s2);
                 s3 = s2\<lparr>chunksRef := [],
                         recorders := recorders s2
                           @ [\<lparr>rec_kind = type, rec_dest = dest, rec_state = Recording\<rparr>],
                         mediaRecorderRef := Some rid,
                         video_currentTime := 0\<rparr>;
                 s4 = play s3
             in if play_rejects s3 then s4 else s4\<lparr>video_onended := ExportEnded rid\<rparr>)"

text \<open>\<^verbatim>\<open>recorder.ondataavailable\<close>, for a chunk of the given size.\<close>

definition recorder_ondataavailable :: "nat \<Rightarrow> player \<Rightarrow> player" where
  "recorder_ondataavailable n s =
     (if n > 0 then s\<lparr>chunksRef := chunksRef s @ [n]\<rparr> else s)"

text \<open>
  \<^verbatim>\<open>recorder.onstop\<close> of recorder \<open>rid\<close>: the download, the routing cleanup, and the
  return to idle. Each recorder's destination is connected when the recorder is made and
  disconnected only here, so \<^verbatim>\<open>disconnect\<close> finds it connected.
\<close>

definition recorder_onstop :: "nat \<Rightarrow> player \<Rightarrow> player" where
  "recorder_onstop rid s =
     (let r = recorders s ! rid;
          d = StreamDest (rec_dest r)
      in s\<lparr>downloads := downloads s @ [export_filename (rec_kind r)],
            voiceGain := disconnect (voiceGain s) d,
            bgGain := disconnect (bgGain s) d,
            originalGain := disconnect (originalGain s) d,
            isRendering := False,
            renderType := None,
            recorders := (recorders s)[rid := r\<lparr>rec_state := Inactive\<rparr>]\<rparr>)"

text \<open>
  The video's \<^verbatim>\<open>ended\<close> event: the element is paused at its end, then the JSX
  \<^verbatim>\<open>onEnded\<close> listener runs, then the \<^verbatim>\<open>onended\<close> property set by an export.
  \<^verbatim>\<open>recorder.stop()\<close> throws on a recorder that is not recording, which ends that handler.
\<close>

definition jsx_onEnded :: "player \<Rightarrow> player" where
  "jsx_onEnded s = (if \<not> isRendering s then stopSources (s\<lparr>isPlaying := False\<rparr>) else s)"

definition property_onended :: "player \<Rightarrow> player" where
  "property_onended s =
     (case video_onended s of
        NoHandler \<Rightarrow> s
      | PlainEnded \<Rightarrow> stopSources (s\<lparr>isPlaying := False\<rparr>)
      | ExportEnded rid \<Rightarrow>
          if rec_state (recorders s ! rid) \<noteq> Recording then s
          else (stopSources
                  (s\<lparr>recorders := (recorders s)[rid := (recorders s ! rid)\<lparr>rec_state := Stopping\<rparr>]\<rparr>))
                 \<lparr>isPlaying := False, video_onended := PlainEnded\<rparr>)"

definition video_ended :: "player \<Rightarrow> player" where
  "video_ended s = property_onended (jsx_onEnded (s\<lparr>video_paused := True\<rparr>))"

text \<open>\<open>handleDownloadTTS\<close>: the instant download of the raw voice as a WAV file.\<close>

definition handleDownloadTTS :: "player \<Rightarrow> player" where
  "handleDownloadTTS s =
     (case createWavBlob (audioData s) (sampleRateProp s) of
        None \<Rightarrow> s
      | Some wav \<Rightarrow> s\<lparr>downloads := downloads s @ [''tts_voice_raw.wav'']\<rparr>)"

subsection \<open>Events\<close>

text \<open>
  What can happen to a mounted component: the user's clicks and slider moves, which reach
  a handler only when the control is rendered and not \<^verbatim>\<open>disabled\<close>; the callbacks of the
  video element and of the recorders; and new props, which run the decoding effects. The
  seek slider has \<^verbatim>\<open>min="0"\<close>, and the time a video reports is not negative. A recorder
  fires \<^verbatim>\<open>onstop\<close> once, after \<^verbatim>\<open>stop()\<close> was called on it.
\<close>

datatype event =
    ClickOverlay
  | ClickTogglePlay
  | Seek real
  | ClickSaveVoice
  | ClickExport export_kind
  | MoveVolume channel real
  | ClickMute channel
  | VideoEnded
  | VideoPlay
  | VideoPause
  | VideoTimeUpdate real
  | RecorderData nat
  | RecorderStop nat
  | NewAudioData "byte list" nat
  | NewBackgroundFile "audio_buffer decode_result option"

fun volume_disabled :: "channel \<Rightarrow> player \<Rightarrow> bool" where
  "volume_disabled Voice s = isVoiceMuted s"
| "volume_disabled Background s = (\<not> backgroundAudioFile s \<or> isBgMuted s)"
| "volume_disabled Original s = isOriginalMuted s"

fun mute_disabled :: "channel \<Rightarrow> player \<Rightarrow> bool" where
  "mute_disabled Voice s = False"
| "mute_disabled Background s = (\<not> backgroundAudioFile s)"
| "mute_disabled Original s = False"

fun step :: "event \<Rightarrow> player \<Rightarrow> player" where
  "step ClickOverlay s =
     (if \<not> isPlaying s \<and> isReady s \<and> \<not> isRendering s then play s else s)"
| "step ClickTogglePlay s = (if \<not> isReady s \<or> isRendering s then s else togglePlay s)"
| "step (Seek t) s = (if isRendering s \<or> t < 0 then s else handleSeek t s)"
| "step ClickSaveVoice s = (if isRendering s \<or> \<not> isReady s then s else handleDownloadTTS s)"
| "step (ClickExport type) s =
     (if isRendering s \<or> \<not> isReady s then s else performExport type s)"
| "step (MoveVolume c v) s = (if volume_disabled c s then s else setVolume c v s)"
| "step (ClickMute c) s = (if mute_disabled c s then s else toggleMute c s)"
| "step VideoEnded s = (if videoRef s then video_ended s else s)"
| "step VideoPlay s = s\<lparr>isPlaying := True\<rparr>"
| "step VideoPause s = s\<lparr>isPlaying := False\<rparr>"
| "step (VideoTimeUpdate t) s =
     (if videoRef s \<and> 0 \<le> t then s\<lparr>video_currentTime := t, currentTime := t\<rparr> else s)"
| "step (RecorderData n) s = recorder_ondataavailable n s"
| "step (RecorderStop rid) s =
     (if rid < length (recorders s) \<and> rec_state (recorders s ! rid) = Stopping
      then recorder_onstop rid s else s)"
| "step (NewAudioData data rate) s = decodeTTS (s\<lparr>audioData := data, sampleRateProp := rate\<rparr>)"
| "step (NewBackgroundFile file) s = loadBg file (s\<lparr>backgroundAudioFile := (file \<noteq> None)\<rparr>)"

definition run :: "event list \<Rightarrow> player \<Rightarrow> player" where
  "run es s = foldl (\<lambda>s e. step e s) s es"

text \<open>
  The component after mounting with the given props, on a platform that can or cannot
  capture the video's frames and whose \<^verbatim>\<open>new AudioContext()\<close> is \<open>ctx\<close>: the context and the
  gain nodes are created, the gains are connected to the output and set to the initial
  volumes, and the two decoding effects have run.
\<close>

definition mounted ::
  "byte list \<Rightarrow> nat \<Rightarrow> audio_buffer decode_result option \<Rightarrow> bool \<Rightarrow> audio_context \<Rightarrow> player" where
  "mounted data rate file capture ctx =
     loadBg file (decodeTTS
       \<lparr>audioData = data, sampleRateProp = rate, backgroundAudioFile = (file \<noteq> None),
        captureStream = capture,
        videoRef = True, video_currentTime = 0, video_paused = True, video_onended = NoHandler,
        audioContextRef = Some ctx,
        voiceSourceRef = None,
        voiceGain = \<lparr>gain_value = 1, outputs = {Destination}\<rparr>,
        voiceBufferRef = None,
        bgSourceRef = None,
        bgGain = \<lparr>gain_value = 2 / 10, outputs = {Destination}\<rparr>,
        bgBufferRef = None,
        originalGain = \<lparr>gain_value = 5 / 10, outputs = {Destination}\<rparr>,
        destRef = None, mediaRecorderRef = None, chunksRef = [],
        sources = [], dests = 0, recorders = [],
        isPlaying = False, isReady = False, isRendering = False, renderType = None,
        currentTime = 0,
        volume = 1, bgVolume = 2 / 10, originalVolume = 5 / 10,
        isVoiceMuted = False, isBgMuted = False, isOriginalMuted = False,
        downloads = [], alerts = [], console = []\<rparr>)"

subsection \<open>Observations\<close>

text \<open>
  A source instance is active as long as it is connected to a gain node or has been started
  and not stopped; tearing it down (\<open>stop_source\<close>) ends both.
\<close>

definition active :: "buffer_source \<Rightarrow> bool" where
  "active src \<longleftrightarrow> src_output src \<noteq> None \<or> (src_offset src \<noteq> None \<and> \<not> src_stopped src)"

definition active_sources :: "player \<Rightarrow> buffer_source list" where
  "active_sources s = filter active (sources s)"

definition feeding :: "channel \<Rightarrow> player \<Rightarrow> buffer_source list" where
  "feeding c s = filter (\<lambda>src. active src \<and> src_output src = Some c) (sources s)"

text \<open>The sources that existed in state \<open>s\<close>, as they are in state \<open>s'\<close>.\<close>

definition earlier_sources :: "player \<Rightarrow> player \<Rightarrow> buffer_source list" where
  "earlier_sources s s' = take (length (sources s)) (sources s')"

text \<open>Export jobs in flight: recorders that are recording or whose \<^verbatim>\<open>onstop\<close> is pending.\<close>

definition in_flight :: "player \<Rightarrow> recorder list" where
  "in_flight s = filter (\<lambda>r. rec_state r \<noteq> Inactive) (recorders s)"

definition export_downloads :: "player \<Rightarrow> string list" where
  "export_downloads s =
     filter (\<lambda>f. f = export_filename Video \<or> f = export_filename Audio) (downloads s)"

fun is_export :: "event \<Rightarrow> bool" where
  "is_export (ClickExport type) = True"
| "is_export e = False"

text \<open>The header that \<open>createWavBlob\<close> is shown to write, for a payload of \<open>n\<close> bytes.\<close>

definition wav_header :: "nat \<Rightarrow> nat \<Rightarrow> byte list" where
  "wav_header n rate =
     [82, 73, 70, 70,
      of_nat (36 + n), of_nat ((36 + n) div 256), of_nat ((36 + n) div 65536),
      of_nat ((36 + n) div 16777216),
      87, 65, 86, 69, 102, 109, 116, 32,
      16, 0, 0, 0, 1, 0, 1, 0,
      of_nat rate, of_nat (rate div 256), of_nat (rate div 65536), of_nat (rate div 16777216),
      of_nat (rate * 2), of_nat (rate * 2 div 256), of_nat (rate * 2 div 65536),
      of_nat (rate * 2 div 16777216),
      2, 0, 16, 0, 100, 97, 116, 97,
      of_nat n, of_nat (n div 256), of_nat (n div 65536), of_nat (n div 16777216)]"

text \<open>Export downloads made or still to come: one for each recorder in flight.\<close>

definition pending :: "player \<Rightarrow> nat" where
  "pending s = length (export_downloads s) + length (in_flight s)"

subsection \<open>Invariants\<close>

text \<open>The source store after \<open>stopSources\<close>, from the store and the two refs.\<close>

definition stopped :: "buffer_source list \<Rightarrow> nat option \<Rightarrow> nat option \<Rightarrow> buffer_source list" where
  "stopped l v b =
     (let l1 = (case v of None \<Rightarrow> l | Some i \<Rightarrow> l[i := stop_source (l ! i)])
      in case b of None \<Rightarrow> l1 | Some j \<Rightarrow> l1[j := stop_source (l1 ! j)])"

abbreviation stopped_sources :: "player \<Rightarrow> buffer_source list" where
  "stopped_sources s \<equiv> stopped (sources s) (voiceSourceRef s) (bgSourceRef s)"

text \<open>Every active source is the one a ref holds, and feeds that ref's gain node.\<close>

definition src_ok :: "buffer_source list \<Rightarrow> nat option \<Rightarrow> nat option \<Rightarrow> bool" where
  "src_ok l v b \<longleftrightarrow>
     (\<forall>i < length l. active (l ! i) \<longrightarrow>
        (v = Some i \<and> src_output (l ! i) = Some Voice)
        \<or> (b = Some i \<and> src_output (l ! i) = Some Background))"

definition src_inv :: "player \<Rightarrow> bool" where
  "src_inv s \<longleftrightarrow> src_ok (sources s) (voiceSourceRef s) (bgSourceRef s)"

definition all_torn :: "buffer_source list \<Rightarrow> bool" where
  "all_torn l \<longleftrightarrow> list_all (\<lambda>src. \<not> active src) l"

text \<open>A recorder in flight is the latest one, and the component is rendering.\<close>

definition rec_ok :: "recorder list \<Rightarrow> bool \<Rightarrow> nat option \<Rightarrow> bool" where
  "rec_ok l rendering ref \<longleftrightarrow>
     (\<forall>r < length l. rec_state (l ! r) \<noteq> Inactive \<longrightarrow> rendering \<and> ref = Some r)"

definition rec_inv :: "player \<Rightarrow> bool" where
  "rec_inv s \<longleftrightarrow> rec_ok (recorders s) (isRendering s) (mediaRecorderRef s)"

definition gain_inv :: "player \<Rightarrow> bool" where
  "gain_inv s \<longleftrightarrow>
     gain_value (voiceGain s) = (if isVoiceMuted s then 0 else volume s)
     \<and> gain_value (bgGain s) = (if isBgMuted s then 0 else bgVolume s)
     \<and> gain_value (originalGain s) = (if isOriginalMuted s then 0 else originalVolume s)"

definition env_inv :: "player \<Rightarrow> bool" where
  "env_inv s \<longleftrightarrow> videoRef s \<and> audioContextRef s \<noteq> None \<and> 0 \<le> video_currentTime s"

subsection \<open>A scenario\<close>

text \<open>
  A freshly made context that supports the sample rates every implementation must; a
  silent voice of 80000 PCM bytes at 8000 Hz (40000 frames, 5.0 s); a background clip of
  24000 frames at 8000 Hz (3.0 s) that the platform decodes; and a platform that can
  capture the video's frames. And the same voice with no background file where it cannot.
\<close>

definition webaudio :: audio_context where
  "webaudio = \<lparr>context_state = Suspended, minSampleRate = 8000, maxSampleRate = 96000\<rparr>"

definition bg3 :: audio_buffer where
  "bg3 = \<lparr>numberOfChannels = 1, buf_length = 24000, sampleRate = 8000,
          channels = [replicate 24000 0]\<rparr>"

definition voice5 :: audio_buffer where
  "voice5 = \<lparr>numberOfChannels = 1, buf_length = 40000, sampleRate = 8000,
             channels = [replicate 40000 0]\<rparr>"

definition scenario :: player where
  "scenario = mounted (replicate 80000 0) 8000 (Some (Decoded bg3)) True webaudio"

definition scenario_no_capture :: player where
  "scenario_no_capture = mounted (replicate 80000 0) 8000 None False webaudio"

section \<open>Properties of the audio utilities\<close>

subsection \<open>The decoder\<close>

lemma int16_view_length: "length (int16_view bs) = length bs div 2"
  by (induction bs rule: int16_view.induct) auto

lemma int16_view_nth:
  "i < length bs div 2 \<Longrightarrow> int16_view bs ! i = word_cat (bs ! (2 * i + 1)) (bs ! (2 * i))"
proof (induction bs arbitrary: i rule: int16_view.induct)
  case (1 lo hi rest)
  then show ?case by (cases i) auto
qed auto

lemma fill_loop:
  "n \<le> length cd \<Longrightarrow>
   foldl (\<lambda>cd i. cd[i := f i]) cd [0..<n] = map f [0..<n] @ drop n cd"
proof (induction n)
  case 0
  then show ?case by simp
next
  case (Suc n)
  then have n: "n < length cd" by simp
  have "(drop n cd)[0 := f n] = f n # drop (Suc n) cd"
    using Cons_nth_drop_Suc [OF n, symmetric] by simp
  with Suc show ?case
    by (simp add: list_update_append)
qed

lemma fill_channel_eq:
  "frameCount \<le> length cd \<Longrightarrow>
   fill_channel d nc ch frameCount cd =
     map (\<lambda>i. real_of_int (sint (d ! (i * nc + ch))) / 32768) [0..<frameCount]
       @ drop frameCount cd"
  unfolding fill_channel_def by (rule fill_loop)

lemma decodeAudioData_odd:
  "odd (length data) \<Longrightarrow> decodeAudioData data ctx rate = Inl RangeError"
  by (simp add: decodeAudioData_def new_Int16Array_def odd_iff_mod_2_eq_one)

lemma decodeAudioData_even:
  "even (length data) \<Longrightarrow> data \<noteq> [] \<Longrightarrow> rate_supported ctx rate \<Longrightarrow>
   decodeAudioData data ctx rate =
     Inr \<lparr>numberOfChannels = 1, buf_length = length data div 2, sampleRate = rate,
          channels = [map (\<lambda>i. real_of_int (sint (int16_view data ! i)) / 32768)
                        [0..<length data div 2]]\<rparr>"
proof -
  assume ev: "even (length data)" and ne: "data \<noteq> []" and ok: "rate_supported ctx rate"
  from ev ne have "length data div 2 \<noteq> 0" by (cases data) auto
  with ev ok show ?thesis
    by (simp add: decodeAudioData_def new_Int16Array_def fill_buffer_def createBuffer_def
        fill_channel_eq int16_view_length Let_def)
qed

lemma decodeAudioData_rejected:
  "even (length data) \<Longrightarrow> data = [] \<or> \<not> rate_supported ctx rate \<Longrightarrow>
   decodeAudioData data ctx rate = Inl NotSupportedError"
  by (auto simp: decodeAudioData_def new_Int16Array_def createBuffer_def int16_view_length)

lemma sample_range:
  "- 1 \<le> real_of_int (sint (w :: 16 word)) / 32768 \<and> real_of_int (sint w) / 32768 \<le> 1"
proof -
  have "- 32768 \<le> sint w" "sint w < 32768"
    using sint_ge [of w] sint_lt [of w] by simp_all
  then have "real_of_int (- 32768) \<le> real_of_int (sint w)"
    "real_of_int (sint w) \<le> real_of_int 32768"
    by (simp_all only: of_int_le_iff)
  then show ?thesis by (simp del: of_int_sint)
qed

text \<open>
  Claim C8 (as amended). For every 16-bit PCM input of even, non-zero byte length and every
  sample rate the audio context supports (not zero and within the context's range),
  decoding returns a buffer with one channel at that rate whose sample count is half the
  byte length, and sample \<open>i\<close> is the signed little-endian 16-bit value of bytes \<open>2i\<close> and
  \<open>2i+1\<close> divided by 32768, a number between -1 and 1. For the empty input and for a rate
  the context does not support, \<^verbatim>\<open>createBuffer\<close> throws, the \<^verbatim>\<open>NotSupportedError\<close> is the
  result, and no buffer is produced.
\<close>

theorem decodeAudioData_samples:
  assumes "length data mod 2 = 0"
  shows "(data \<noteq> [] \<and> rate_supported ctx rate \<longrightarrow>
           (\<exists>buf. decodeAudioData data ctx rate = Inr buf
              \<and> numberOfChannels buf = 1 \<and> length (channels buf) = 1
              \<and> sampleRate buf = rate
              \<and> buf_length buf = length data div 2
              \<and> length (channels buf ! 0) = length data div 2
              \<and> (\<forall>i < length data div 2.
                    channels buf ! 0 ! i
                      = real_of_int (sint (word_cat (data ! (2 * i + 1)) (data ! (2 * i)) :: 16 word))
                          / 32768
                    \<and> - 1 \<le> channels buf ! 0 ! i \<and> channels buf ! 0 ! i \<le> 1)))
       \<and> (data = [] \<or> \<not> rate_supported ctx rate \<longrightarrow>
            decodeAudioData data ctx rate = Inl NotSupportedError)"
proof -
  from assms have ev: "even (length data)" by presburger
  let ?buf = "\<lparr>numberOfChannels = 1, buf_length = length data div 2, sampleRate = rate,
          channels = [map (\<lambda>i. real_of_int (sint (int16_view data ! i)) / 32768)
                        [0..<length data div 2]]\<rparr>"
  have dec: "decodeAudioData data ctx rate = Inr ?buf"
    if "data \<noteq> []" and "rate_supported ctx rate"
    using that by (rule decodeAudioData_even [OF ev])
  have shape: "numberOfChannels ?buf = 1 \<and> length (channels ?buf) = 1
      \<and> sampleRate ?buf = rate \<and> buf_length ?buf = length data div 2
      \<and> length (channels ?buf ! 0) = length data div 2"
    by simp
  have vals: "\<forall>i < length data div 2.
      channels ?buf ! 0 ! i
        = real_of_int (sint (word_cat (data ! (2 * i + 1)) (data ! (2 * i)) :: 16 word)) / 32768
      \<and> - 1 \<le> channels ?buf ! 0 ! i \<and> channels ?buf ! 0 ! i \<le> 1"
  proof (intro allI impI)
    fix i
    assume i: "i < length data div 2"
    have c: "channels ?buf ! 0 ! i = real_of_int (sint (int16_view data ! i)) / 32768"
      using i by (simp del: of_int_sint)
    show "channels ?buf ! 0 ! i
        = real_of_int (sint (word_cat (data ! (2 * i + 1)) (data ! (2 * i)) :: 16 word)) / 32768
      \<and> - 1 \<le> channels ?buf ! 0 ! i \<and> channels ?buf ! 0 ! i \<le> 1"
      unfolding c using sample_range [of "int16_view data ! i"]
      by (simp only: int16_view_nth [OF i] simp_thms)
  qed
  have rej: "decodeAudioData data ctx rate = Inl NotSupportedError"
    if "data = [] \<or> \<not> rate_supported ctx rate"
    using that by (rule decodeAudioData_rejected [OF ev])
  from dec shape vals rej show ?thesis by blast
qed

lemma le_samples:
  "sint (word_cat (128 :: byte) (0 :: byte) :: 16 word) = - 32768"
  "sint (word_cat (127 :: byte) (255 :: byte) :: 16 word) = 32767"
  "sint (word_cat (255 :: byte) (254 :: byte) :: 16 word) = - 2"
  by code_simp+

lemma webaudio_rates:
  "rate_supported webaudio 8000" "rate_supported webaudio 24000" "\<not> rate_supported webaudio 0"
  by (simp_all add: rate_supported_def webaudio_def)

theorem decodeAudioData_samples_witness:
  "length [0, 128, 255, 127, 254, 255 :: byte] mod 2 = 0
   \<and> [0, 128, 255, 127, 254, 255 :: byte] \<noteq> [] \<and> rate_supported webaudio 24000
   \<and> decodeAudioData [0, 128, 255, 127, 254, 255] webaudio 24000
       = Inr \<lparr>numberOfChannels = 1, buf_length = 3, sampleRate = 24000,
              channels = [[- 1, 32767 / 32768, - (1 / 16384)]]\<rparr>
   \<and> (\<exists>buf. decodeAudioData [0, 128, 255, 127, 254, 255] webaudio 24000 = Inr buf
          \<and> buf_length buf = 3 \<and> numberOfChannels buf = 1)"
proof -
  have h: "length [0, 128, 255, 127, 254, 255 :: byte] mod 2 = 0" by simp
  have n: "[0, 128, 255, 127, 254, 255 :: byte] \<noteq> []" by simp
  have u: "[0..<3] = [0, 1, 2]" by (simp add: upt_rec)
  have v: "decodeAudioData [0, 128, 255, 127, 254, 255] webaudio 24000
       = Inr \<lparr>numberOfChannels = 1, buf_length = 3, sampleRate = 24000,
              channels = [[- 1, 32767 / 32768, - (1 / 16384)]]\<rparr>"
    by (simp add: decodeAudioData_even webaudio_rates u le_samples del: of_int_sint)
  from decodeAudioData_samples [OF h, of webaudio 24000] h n webaudio_rates(2) v
  show ?thesis by simp
qed

text \<open>
  The claim as stated, for every input of even length and every sample rate, fails for the
  empty input (a frame count of zero) and for a rate the context does not support: no
  buffer is decoded.
\<close>

theorem decodeAudioData_samples_counterexample:
  "length ([] :: byte list) mod 2 = 0
   \<and> decodeAudioData [] webaudio 24000 = Inl NotSupportedError
   \<and> length [0, 0 :: byte] mod 2 = 0
   \<and> decodeAudioData [0, 0] webaudio 0 = Inl NotSupportedError"
  using decodeAudioData_rejected [of "[]" webaudio 24000]
    decodeAudioData_rejected [of "[0, 0]" webaudio 0] webaudio_rates(3)
  by simp

subsection \<open>The WAV encoder\<close>

lemma zeros44:
  "replicate (44 + n) (0::byte) =
     [0,0,0,0,0,0,0,0,0,0,0, 0,0,0,0,0,0,0,0,0,0,0,
      0,0,0,0,0,0,0,0,0,0,0, 0,0,0,0,0,0,0,0,0,0,0] @ replicate n 0"
  by (simp add: replicate_add numeral_eq_Suc)

lemma createWavBlob_eq:
  "createWavBlob samples rate =
     Some \<lparr>blob_bytes = wav_header (length samples) rate @ samples, blob_type = ''audio/wav''\<rparr>"
  unfolding createWavBlob_def zeros44
  by (simp add: setUint8_def setUint16_def setUint32_def set_from_def wav_header_def
      list_update_append)

lemma le16_split: "(v::nat) mod 65536 = v mod 256 + 256 * (v div 256 mod 256)"
  using mod_mult2_eq [of v 256 256] by simp

lemma le32_split:
  "(v::nat) mod 4294967296 =
     v mod 256 + 256 * (v div 256 mod 256) + 65536 * (v div 65536 mod 256)
       + 16777216 * (v div 16777216 mod 256)"
proof -
  have a: "v mod 4294967296 = 65536 * (v div 65536 mod 65536) + v mod 65536"
    using mod_mult2_eq [of v 65536 65536] by simp
  have b: "v div 65536 div 256 = v div 16777216"
    using div_mult2_eq [of v 65536 256] by simp
  show ?thesis
    unfolding a le16_split [of v] le16_split [of "v div 65536"] b by simp
qed

lemma le32_bytes:
  "unat (of_nat v :: byte) + 256 * unat (of_nat (v div 256) :: byte)
     + 65536 * unat (of_nat (v div 65536) :: byte)
     + 16777216 * unat (of_nat (v div 16777216) :: byte)
   = v mod 4294967296"
  by (simp add: unat_of_nat le32_split)

lemma header_length: "length (wav_header n rate) = 44"
  by (simp add: wav_header_def)

lemma header_magic:
  "take 4 (wav_header n rate) = map of_char ''RIFF''"
  "take 4 (drop 8 (wav_header n rate)) = map of_char ''WAVE''"
  "take 4 (drop 12 (wav_header n rate)) = map of_char ''fmt ''"
  "take 4 (drop 36 (wav_header n rate)) = map of_char ''data''"
  by (simp_all add: wav_header_def)

lemma header_fields32:
  "getUint32 (wav_header n rate @ samples) 4 = (36 + n) mod 4294967296"
  "getUint32 (wav_header n rate @ samples) 40 = n mod 4294967296"
  "getUint32 (wav_header n rate @ samples) 24 = rate mod 4294967296"
  "getUint32 (wav_header n rate @ samples) 28 = (rate * 2) mod 4294967296"
  using le32_bytes [of "36 + n"] le32_bytes [of n] le32_bytes [of rate]
    le32_bytes [of "rate * 2"]
  by (simp_all add: getUint32_def wav_header_def)

lemma header_fields16:
  "getUint32 (wav_header n rate @ samples) 16 = 16"
  "getUint16 (wav_header n rate @ samples) 20 = 1"
  "getUint16 (wav_header n rate @ samples) 22 = 1"
  "getUint16 (wav_header n rate @ samples) 32 = 2"
  "getUint16 (wav_header n rate @ samples) 34 = 16"
  by (simp_all add: getUint32_def getUint16_def wav_header_def)

text \<open>
  Claim C6 (as amended). The four size fields of the header are 32 bits wide, so the
  round trip holds when the byte rate \<open>2R\<close> and the chunk size \<open>36 + L\<close> fit in 32 bits:
  the output is then a 44-byte header followed by the input bytes, and reading the header
  back gives RIFF chunk size \<open>36 + L\<close>, data size \<open>L\<close>, byte rate \<open>2R\<close> and block align 2.
  No parity condition on \<open>L\<close> is needed.
\<close>

theorem createWavBlob_roundtrip:
  assumes "rate * 2 < 4294967296" and "36 + length samples < 4294967296"
  shows "\<exists>header. length header = 44
           \<and> createWavBlob samples rate
               = Some \<lparr>blob_bytes = header @ samples, blob_type = ''audio/wav''\<rparr>
           \<and> getUint32 (header @ samples) 4 = 36 + length samples
           \<and> getUint32 (header @ samples) 40 = length samples
           \<and> getUint32 (header @ samples) 28 = rate * 2
           \<and> getUint16 (header @ samples) 32 = 2"
proof -
  from assms have "(36 + length samples) mod 4294967296 = 36 + length samples"
    "length samples mod 4294967296 = length samples"
    "(rate * 2) mod 4294967296 = rate * 2"
    by simp_all
  then show ?thesis
    using createWavBlob_eq [of samples rate] header_length [of "length samples" rate]
      header_fields32 [of "length samples" rate samples]
      header_fields16 [of "length samples" rate samples]
    by (intro exI [of _ "wav_header (length samples) rate"]) (simp only: simp_thms)
qed

theorem createWavBlob_roundtrip_witness:
  "(24000::nat) * 2 < 4294967296 \<and> 36 + length [1, 2, 3, 4 :: byte] < 4294967296
   \<and> (\<exists>header. length header = 44
          \<and> createWavBlob [1, 2, 3, 4] 24000
              = Some \<lparr>blob_bytes = header @ [1, 2, 3, 4], blob_type = ''audio/wav''\<rparr>
          \<and> getUint32 (header @ [1, 2, 3, 4]) 4 = 40
          \<and> getUint32 (header @ [1, 2, 3, 4]) 40 = 4
          \<and> getUint32 (header @ [1, 2, 3, 4]) 28 = 48000
          \<and> getUint16 (header @ [1, 2, 3, 4]) 32 = 2)"
proof -
  have l: "length [1, 2, 3, 4 :: byte] = 4" by simp
  show ?thesis
    using createWavBlob_roundtrip [of 24000 "[1, 2, 3, 4]", unfolded l] by simp
qed

text \<open>
  The claim as stated, for every sample rate, fails where the byte rate needs more than
  32 bits: at \<open>R = 2\<^sup>3\<^sup>1\<close> the byte-rate field reads back as 0.
\<close>

theorem createWavBlob_roundtrip_counterexample:
  "getUint32 (blob_bytes (the (createWavBlob [] 2147483648))) 28 \<noteq> 2147483648 * 2"
proof -
  have "getUint32 (blob_bytes (the (createWavBlob [] 2147483648))) 28
      = (2147483648 * 2) mod 4294967296"
    using header_fields32(4) [of 0 2147483648 "[]"] createWavBlob_eq [of "[]" 2147483648]
    by simp
  then show ?thesis by simp
qed

section \<open>Properties of the player\<close>

subsection \<open>Tearing down and starting sources\<close>

lemma stopSources_eq:
  "stopSources s = s\<lparr>sources := stopped_sources s, voiceSourceRef := None, bgSourceRef := None\<rparr>"
  by (cases s) (simp add: stopSources_def stopped_def Let_def split: option.splits)

lemma length_stopped [simp]: "length (stopped l v b) = length l"
  by (simp add: stopped_def Let_def split: option.splits)

lemma stop_source_inactive [simp]: "\<not> active (stop_source src)"
  by (auto simp: active_def stop_source_def)

lemma all_torn_nth: "all_torn l \<longleftrightarrow> (\<forall>i < length l. \<not> active (l ! i))"
  by (simp add: all_torn_def list_all_length)

lemma nth_upd: "j < length xs \<Longrightarrow> (xs[i := x]) ! j = (if i = j then x else xs ! j)"
  by (cases "i = j") simp_all

lemma stopped_sources_torn:
  assumes "src_inv s"
  shows "all_torn (stopped_sources s)"
  unfolding all_torn_nth
proof (intro allI impI)
  fix i
  assume "i < length (stopped_sources s)"
  then have i: "i < length (sources s)" by simp
  show "\<not> active (stopped_sources s ! i)"
  proof (cases "voiceSourceRef s = Some i \<or> bgSourceRef s = Some i")
    case True
    with i show ?thesis
      by (auto simp: stopped_def Let_def nth_upd split: option.splits)
  next
    case False
    with assms i have "\<not> active (sources s ! i)"
      by (auto simp: src_inv_def src_ok_def)
    with False i show ?thesis
      by (auto simp: stopped_def Let_def nth_upd split: option.splits)
  qed
qed

lemma torn_src_inv: "all_torn (sources s) \<Longrightarrow> src_inv s"
  by (simp add: all_torn_nth src_inv_def src_ok_def)

lemma src_inv_stopSources: "src_inv s \<Longrightarrow> src_inv (stopSources s)"
  by (rule torn_src_inv) (simp add: stopSources_eq stopped_sources_torn)

lemma all_torn_append: "all_torn (xs @ ys) \<longleftrightarrow> all_torn xs \<and> all_torn ys"
  by (simp add: all_torn_def)

lemma src_inv_fields:
  "sources s' = sources s \<Longrightarrow> voiceSourceRef s' = voiceSourceRef s \<Longrightarrow>
   bgSourceRef s' = bgSourceRef s \<Longrightarrow> src_inv s' = src_inv s"
  by (simp add: src_inv_def)

lemma play_sources_eq:
  "videoRef s \<Longrightarrow> audioContextRef s \<noteq> None \<Longrightarrow>
   sources (play s) = stopped_sources s
     @ (case voiceBufferRef s of None \<Rightarrow> [] | Some vb \<Rightarrow> [voice_source vb (video_currentTime s)])
     @ (case bgBufferRef s of None \<Rightarrow> []
        | Some bb \<Rightarrow> [bg_source bb (js_rem (video_currentTime s) (duration bb))])"
  by (auto simp: play_def stopSources_eq Let_def split: option.splits)

lemma play_refs:
  "videoRef s \<Longrightarrow> audioContextRef s \<noteq> None \<Longrightarrow>
   voiceSourceRef (play s) = (case voiceBufferRef s of None \<Rightarrow> None | Some vb \<Rightarrow> Some (length (sources s)))
   \<and> bgSourceRef (play s) = (case bgBufferRef s of None \<Rightarrow> None
        | Some bb \<Rightarrow> Some (length (sources s) + (case voiceBufferRef s of None \<Rightarrow> 0 | Some vb \<Rightarrow> 1)))"
  by (auto simp: play_def stopSources_eq Let_def split: option.splits)

lemma play_noop: "\<not> videoRef s \<or> audioContextRef s = None \<Longrightarrow> play s = s"
  by (auto simp: play_def)

lemma src_inv_play: 
  assumes "src_inv s" shows "src_inv (play s)"
proof (cases "videoRef s \<and> audioContextRef s \<noteq> None")
  case False
  then show ?thesis using assms by (auto simp: play_noop)
next
  case True
  then have v: "videoRef s" "audioContextRef s \<noteq> None" by auto
  have t: "\<forall>i < length (sources s). \<not> active (stopped_sources s ! i)"
    using stopped_sources_torn [OF assms] by (simp add: all_torn_nth)
  show ?thesis
    unfolding src_inv_def src_ok_def
    using t play_refs [OF v]
    by (auto simp: play_sources_eq [OF v] nth_append voice_source_def bg_source_def
        less_Suc_eq split: option.splits)
qed

lemma stopSources_frame [simp]:
  "recorders (stopSources s) = recorders s"
  "isRendering (stopSources s) = isRendering s"
  "mediaRecorderRef (stopSources s) = mediaRecorderRef s"
  "videoRef (stopSources s) = videoRef s"
  "audioContextRef (stopSources s) = audioContextRef s"
  "video_currentTime (stopSources s) = video_currentTime s"
  "voiceGain (stopSources s) = voiceGain s"
  "bgGain (stopSources s) = bgGain s"
  "originalGain (stopSources s) = originalGain s"
  "volume (stopSources s) = volume s"
  "bgVolume (stopSources s) = bgVolume s"
  "originalVolume (stopSources s) = originalVolume s"
  "isVoiceMuted (stopSources s) = isVoiceMuted s"
  "isBgMuted (stopSources s) = isBgMuted s"
  "isOriginalMuted (stopSources s) = isOriginalMuted s"
  "downloads (stopSources s) = downloads s"
  "voiceBufferRef (stopSources s) = voiceBufferRef s"
  "bgBufferRef (stopSources s) = bgBufferRef s"
  "captureStream (stopSources s) = captureStream s"
  "dests (stopSources s) = dests s"
  "isReady (stopSources s) = isReady s"
  "voiceSourceRef (stopSources s) = None"
  "bgSourceRef (stopSources s) = None"
  "sources (stopSources s) = stopped_sources s"
  by (simp_all add: stopSources_eq)

lemma play_frame [simp]:
  "recorders (play s) = recorders s"
  "isRendering (play s) = isRendering s"
  "mediaRecorderRef (play s) = mediaRecorderRef s"
  "videoRef (play s) = videoRef s"
  "(audioContextRef (play s) = None) = (audioContextRef s = None)"
  "video_currentTime (play s) = video_currentTime s"
  "voiceGain (play s) = voiceGain s"
  "bgGain (play s) = bgGain s"
  "originalGain (play s) = originalGain s"
  "volume (play s) = volume s"
  "bgVolume (play s) = bgVolume s"
  "originalVolume (play s) = originalVolume s"
  "isVoiceMuted (play s) = isVoiceMuted s"
  "isBgMuted (play s) = isBgMuted s"
  "isOriginalMuted (play s) = isOriginalMuted s"
  "downloads (play s) = downloads s"
  "voiceBufferRef (play s) = voiceBufferRef s"
  "bgBufferRef (play s) = bgBufferRef s"
  "captureStream (play s) = captureStream s"
  "dests (play s) = dests s"
  "isReady (play s) = isReady s"
  by (simp_all add: play_def Let_def split: option.splits)

lemma pause_frame [simp]:
  "recorders (pause s) = recorders s"
  "isRendering (pause s) = isRendering s"
  "mediaRecorderRef (pause s) = mediaRecorderRef s"
  "videoRef (pause s) = videoRef s"
  "audioContextRef (pause s) = audioContextRef s"
  "video_currentTime (pause s) = video_currentTime s"
  "voiceGain (pause s) = voiceGain s"
  "bgGain (pause s) = bgGain s"
  "originalGain (pause s) = originalGain s"
  "volume (pause s) = volume s"
  "bgVolume (pause s) = bgVolume s"
  "originalVolume (pause s) = originalVolume s"
  "isVoiceMuted (pause s) = isVoiceMuted s"
  "isBgMuted (pause s) = isBgMuted s"
  "isOriginalMuted (pause s) = isOriginalMuted s"
  "downloads (pause s) = downloads s"
  "voiceBufferRef (pause s) = voiceBufferRef s"
  "bgBufferRef (pause s) = bgBufferRef s"
  "captureStream (pause s) = captureStream s"
  "dests (pause s) = dests s"
  "isReady (pause s) = isReady s"
  "voiceSourceRef (pause s) = None"
  "bgSourceRef (pause s) = None"
  "sources (pause s) = stopped_sources s"
  "isPlaying (pause s) = False"
  by (simp_all add: pause_def)

lemma src_inv_pause: "src_inv s \<Longrightarrow> src_inv (pause s)"
  by (rule torn_src_inv) (simp add: stopped_sources_torn)

lemma src_inv_handleSeek: "src_inv s \<Longrightarrow> src_inv (handleSeek t s)"
proof -
  assume a: "src_inv s"
  have "src_inv (s\<lparr>currentTime := t, video_currentTime := t\<rparr>)"
    using a by (simp add: src_inv_def)
  from src_inv_play [OF this] a show ?thesis
    by (simp add: handleSeek_def Let_def src_inv_def)
qed

lemma src_inv_performExport: "src_inv s \<Longrightarrow> src_inv (performExport type s)"
proof -
  assume a: "src_inv s"
  let ?s1 = "pause (s\<lparr>isRendering := True, renderType := Some type\<rparr>)"
  have "src_inv (s\<lparr>isRendering := True, renderType := Some type\<rparr>)"
    using a by (simp add: src_inv_def)
  then have p: "src_inv ?s1" by (rule src_inv_pause)
  let ?s3 = "?s1\<lparr>dests := Suc (dests ?s1), destRef := Some (dests ?s1),
                    voiceGain := connect (voiceGain ?s1) (StreamDest (dests ?s1)),
                    bgGain := connect (bgGain ?s1) (StreamDest (dests ?s1)),
                    originalGain := connect (originalGain ?s1) (StreamDest (dests ?s1)),
                    chunksRef := [],
                    recorders := recorders ?s1
                           @ [\<lparr>rec_kind = type, rec_dest = dests ?s1, rec_state = Recording\<rparr>],
                    mediaRecorderRef := Some (length (recorders ?s1)),
                    video_currentTime := 0\<rparr>"
  have "src_inv ?s3" using p by (simp add: src_inv_def)
  then have "src_inv (play ?s3)" by (rule src_inv_play)
  with a p show ?thesis
    by (simp add: performExport_def Let_def src_inv_def)
qed

lemma src_inv_video_ended: "src_inv s \<Longrightarrow> src_inv (video_ended s)"
proof -
  assume a: "src_inv s"
  have 1: "src_inv (jsx_onEnded (s\<lparr>video_paused := True\<rparr>))" (is "src_inv ?j")
  proof (cases "isRendering s")
    case True
    then show ?thesis using a by (simp add: jsx_onEnded_def src_inv_def)
  next
    case False
    have "src_inv (s\<lparr>video_paused := True, isPlaying := False\<rparr>)" using a by (simp add: src_inv_def)
    from src_inv_stopSources [OF this] False show ?thesis by (simp add: jsx_onEnded_def)
  qed
  show ?thesis
  proof (cases "video_onended ?j")
    case NoHandler
    then show ?thesis using 1 by (simp add: video_ended_def property_onended_def)
  next
    case PlainEnded
    have "src_inv (?j\<lparr>isPlaying := False\<rparr>)" using 1 by (simp add: src_inv_def)
    from src_inv_stopSources [OF this] PlainEnded show ?thesis
      by (simp add: video_ended_def property_onended_def)
  next
    case (ExportEnded rid)
    have "src_inv (?j\<lparr>recorders := (recorders ?j)[rid := (recorders ?j ! rid)\<lparr>rec_state := Stopping\<rparr>]\<rparr>)"
      using 1 by (simp add: src_inv_def)
    from src_inv_stopSources [OF this] ExportEnded 1 show ?thesis
      by (simp add: video_ended_def property_onended_def src_inv_def)
  qed
qed

lemma src_inv_step: "src_inv s \<Longrightarrow> src_inv (step e s)"
proof (cases e)
  case ClickOverlay
  then show ?thesis if "src_inv s" using that src_inv_play by simp
next
  case ClickTogglePlay
  then show ?thesis if "src_inv s" using that src_inv_play src_inv_pause by (simp add: togglePlay_def)
next
  case (Seek t)
  then show ?thesis if "src_inv s" using that src_inv_handleSeek by simp
next
  case ClickSaveVoice
  then show ?thesis if "src_inv s" using that
    by (simp add: handleDownloadTTS_def src_inv_def split: option.splits)
next
  case (ClickExport k)
  then show ?thesis if "src_inv s" using that src_inv_performExport by simp
next
  case (MoveVolume c v)
  then show ?thesis if "src_inv s" using that
    by (cases c) (simp_all add: src_inv_def voiceGainEffect_def bgGainEffect_def originalGainEffect_def)
next
  case (ClickMute c)
  then show ?thesis if "src_inv s" using that
    by (cases c) (simp_all add: src_inv_def toggleMute_def voiceGainEffect_def bgGainEffect_def originalGainEffect_def)
next
  case VideoEnded
  then show ?thesis if "src_inv s" using that src_inv_video_ended by simp
next
  case VideoPlay
  then show ?thesis if "src_inv s" using that by (simp add: src_inv_def)
next
  case VideoPause
  then show ?thesis if "src_inv s" using that by (simp add: src_inv_def)
next
  case (VideoTimeUpdate t)
  then show ?thesis if "src_inv s" using that by (simp add: src_inv_def)
next
  case (RecorderData n)
  then show ?thesis if "src_inv s" using that by (simp add: src_inv_def recorder_ondataavailable_def)
next
  case (RecorderStop rid)
  then show ?thesis if "src_inv s" using that by (simp add: src_inv_def recorder_onstop_def Let_def)
next
  case (NewAudioData d r)
  then show ?thesis if "src_inv s" using that by (simp add: src_inv_def decodeTTS_def split: sum.splits option.splits)
next
  case (NewBackgroundFile f)
  then show ?thesis if "src_inv s" using that
    by (simp add: src_inv_def loadBg_def split: option.splits decode_result.splits)
qed

subsection \<open>Invariants of the event loop\<close>

lemma handleSeek_frame [simp]:
  "recorders (handleSeek t s) = recorders s"
  "isRendering (handleSeek t s) = isRendering s"
  "mediaRecorderRef (handleSeek t s) = mediaRecorderRef s"
  "videoRef (handleSeek t s) = videoRef s"
  "(audioContextRef (handleSeek t s) = None) = (audioContextRef s = None)"
  "voiceGain (handleSeek t s) = voiceGain s"
  "bgGain (handleSeek t s) = bgGain s"
  "originalGain (handleSeek t s) = originalGain s"
  "volume (handleSeek t s) = volume s"
  "bgVolume (handleSeek t s) = bgVolume s"
  "originalVolume (handleSeek t s) = originalVolume s"
  "isVoiceMuted (handleSeek t s) = isVoiceMuted s"
  "isBgMuted (handleSeek t s) = isBgMuted s"
  "isOriginalMuted (handleSeek t s) = isOriginalMuted s"
  "downloads (handleSeek t s) = downloads s"
  by (simp_all add: handleSeek_def Let_def)

lemma performExport_gains:
  "gain_value (voiceGain (performExport k s)) = gain_value (voiceGain s)"
  "gain_value (bgGain (performExport k s)) = gain_value (bgGain s)"
  "gain_value (originalGain (performExport k s)) = gain_value (originalGain s)"
  "volume (performExport k s) = volume s"
  "bgVolume (performExport k s) = bgVolume s"
  "originalVolume (performExport k s) = originalVolume s"
  "isVoiceMuted (performExport k s) = isVoiceMuted s"
  "isBgMuted (performExport k s) = isBgMuted s"
  "isOriginalMuted (performExport k s) = isOriginalMuted s"
  "videoRef (performExport k s) = videoRef s"
  "(audioContextRef (performExport k s) = None) = (audioContextRef s = None)"
  "downloads (performExport k s) = downloads s"
  by (simp_all add: performExport_def Let_def connect_def)

lemma video_ended_frame:
  "voiceGain (video_ended s) = voiceGain s"
  "bgGain (video_ended s) = bgGain s"
  "originalGain (video_ended s) = originalGain s"
  "volume (video_ended s) = volume s"
  "bgVolume (video_ended s) = bgVolume s"
  "originalVolume (video_ended s) = originalVolume s"
  "isVoiceMuted (video_ended s) = isVoiceMuted s"
  "isBgMuted (video_ended s) = isBgMuted s"
  "isOriginalMuted (video_ended s) = isOriginalMuted s"
  "videoRef (video_ended s) = videoRef s"
  "audioContextRef (video_ended s) = audioContextRef s"
  "video_currentTime (video_ended s) = video_currentTime s"
  "isRendering (video_ended s) = isRendering s"
  "mediaRecorderRef (video_ended s) = mediaRecorderRef s"
  "downloads (video_ended s) = downloads s"
  by (simp_all add: video_ended_def property_onended_def jsx_onEnded_def
      split: ended_handler.splits)

lemma gain_inv_step: "gain_inv s \<Longrightarrow> gain_inv (step e s)"
proof (cases e)
  case (MoveVolume c v)
  then show ?thesis if "gain_inv s" using that
    by (cases c) (simp_all add: gain_inv_def voiceGainEffect_def bgGainEffect_def originalGainEffect_def)
next
  case (ClickMute c)
  then show ?thesis if "gain_inv s" using that
    by (cases c) (simp_all add: gain_inv_def toggleMute_def voiceGainEffect_def bgGainEffect_def originalGainEffect_def)
next
  case (ClickExport k)
  then show ?thesis if "gain_inv s" using that by (simp add: gain_inv_def performExport_gains)
next
  case VideoEnded
  then show ?thesis if "gain_inv s" using that by (simp add: gain_inv_def video_ended_frame)
next
  case (RecorderStop rid)
  then show ?thesis if "gain_inv s" using that
    by (simp add: gain_inv_def recorder_onstop_def Let_def disconnect_def)
next
  case (NewAudioData d r)
  then show ?thesis if "gain_inv s" using that by (simp add: gain_inv_def decodeTTS_def split: sum.splits option.splits)
next
  case (NewBackgroundFile f)
  then show ?thesis if "gain_inv s" using that
    by (simp add: gain_inv_def loadBg_def split: option.splits decode_result.splits)
qed (simp_all add: gain_inv_def togglePlay_def handleDownloadTTS_def recorder_ondataavailable_def
    split: option.splits)

lemma env_inv_step: "env_inv s \<Longrightarrow> env_inv (step e s)"
proof (cases e)
  case (ClickExport k)
  then show ?thesis if "env_inv s" using that
    by (simp add: env_inv_def performExport_gains del: not_None_eq)
      (simp add: performExport_def Let_def)
next
  case VideoEnded
  then show ?thesis if "env_inv s" using that by (simp add: env_inv_def video_ended_frame)
next
  case (Seek t)
  then show ?thesis if "env_inv s" using that
    by (simp add: env_inv_def del: not_None_eq) (simp add: handleSeek_def Let_def)
next
  case (MoveVolume c v)
  then show ?thesis if "env_inv s" using that
    by (cases c) (simp_all add: env_inv_def voiceGainEffect_def bgGainEffect_def originalGainEffect_def)
next
  case (ClickMute c)
  then show ?thesis if "env_inv s" using that
    by (cases c) (simp_all add: env_inv_def toggleMute_def voiceGainEffect_def bgGainEffect_def originalGainEffect_def)
next
  case (RecorderStop rid)
  then show ?thesis if "env_inv s" using that by (simp add: env_inv_def recorder_onstop_def Let_def)
next
  case (NewAudioData d r)
  then show ?thesis if "env_inv s" using that by (simp add: env_inv_def decodeTTS_def split: sum.splits option.splits)
next
  case (NewBackgroundFile f)
  then show ?thesis if "env_inv s" using that
    by (auto simp: env_inv_def loadBg_def split: option.splits decode_result.splits)
qed (simp_all add: env_inv_def togglePlay_def handleDownloadTTS_def recorder_ondataavailable_def
    del: not_None_eq split: option.splits)

lemma rec_ok_idle: "rec_ok l False ref \<longleftrightarrow> (\<forall>r < length l. rec_state (l ! r) = Inactive)"
  by (auto simp: rec_ok_def)

lemma rec_inv_performExport:
  assumes "rec_inv s" and "\<not> isRendering s"
  shows "rec_inv (performExport k s)"
proof -
  from assms have idle: "\<forall>r < length (recorders s). rec_state (recorders s ! r) = Inactive"
    by (simp add: rec_inv_def rec_ok_idle)
  then have "rec_ok (recorders s @ [\<lparr>rec_kind = k, rec_dest = dests s, rec_state = Recording\<rparr>])
       True (Some (length (recorders s)))"
    by (auto simp: rec_ok_def nth_append)
  moreover from idle have "rec_ok (recorders s) False (mediaRecorderRef s)"
    by (simp add: rec_ok_idle)
  ultimately show ?thesis
    using assms by (simp add: rec_inv_def performExport_def Let_def)
qed

lemma rec_inv_video_ended: "rec_inv s \<Longrightarrow> rec_inv (video_ended s)"
proof -
  assume a: "rec_inv s"
  have j: "recorders (jsx_onEnded (s\<lparr>video_paused := True\<rparr>)) = recorders s"
    by (simp add: jsx_onEnded_def)
  have "rec_ok (recorders (video_ended s)) (isRendering s) (mediaRecorderRef s)"
    using a
    by (auto simp: rec_inv_def rec_ok_def video_ended_def property_onended_def j nth_upd
        split: ended_handler.splits)
  then show ?thesis by (simp add: rec_inv_def video_ended_frame)
qed

lemma rec_inv_onstop:
  assumes "rec_inv s" and "rid < length (recorders s)" and "rec_state (recorders s ! rid) = Stopping"
  shows "rec_inv (recorder_onstop rid s)"
proof -
  from assms have ref: "mediaRecorderRef s = Some rid"
    by (auto simp: rec_inv_def rec_ok_def)
  with assms(1) have "\<forall>r < length (recorders s). r \<noteq> rid \<longrightarrow> rec_state (recorders s ! r) = Inactive"
    by (auto simp: rec_inv_def rec_ok_def)
  then show ?thesis
    by (auto simp: rec_inv_def rec_ok_idle recorder_onstop_def Let_def nth_upd)
qed

lemma rec_inv_step: "rec_inv s \<Longrightarrow> rec_inv (step e s)"
proof (cases e)
  case (ClickExport k)
  then show ?thesis if "rec_inv s" using that rec_inv_performExport by simp
next
  case VideoEnded
  then show ?thesis if "rec_inv s" using that rec_inv_video_ended by simp
next
  case (RecorderStop rid)
  then show ?thesis if "rec_inv s" using that rec_inv_onstop by simp
next
  case (MoveVolume c v)
  then show ?thesis if "rec_inv s" using that
    by (cases c) (simp_all add: rec_inv_def voiceGainEffect_def bgGainEffect_def originalGainEffect_def)
next
  case (ClickMute c)
  then show ?thesis if "rec_inv s" using that
    by (cases c) (simp_all add: rec_inv_def toggleMute_def voiceGainEffect_def bgGainEffect_def originalGainEffect_def)
next
  case (NewAudioData d r)
  then show ?thesis if "rec_inv s" using that by (simp add: rec_inv_def decodeTTS_def split: sum.splits option.splits)
next
  case (NewBackgroundFile f)
  then show ?thesis if "rec_inv s" using that
    by (simp add: rec_inv_def loadBg_def split: option.splits decode_result.splits)
qed (auto simp: rec_inv_def togglePlay_def handleDownloadTTS_def recorder_ondataavailable_def
    split: option.splits)

subsection \<open>Reachable states\<close>

lemma run_Nil: "run [] s = s"
  by (simp add: run_def)

lemma run_Cons: "run (e # es) s = run es (step e s)"
  by (simp add: run_def)

lemma run_append: "run (es @ es') s = run es' (run es s)"
  by (simp add: run_def)

lemma run_invariant:
  assumes "\<And>s e. P s \<Longrightarrow> P (step e s)" and "P s"
  shows "P (run es s)"
  using assms(2) by (induction es arbitrary: s) (simp_all add: assms(1) run_Nil run_Cons)

lemma mounted_inv:
  "src_inv (mounted d r f c x)" "rec_inv (mounted d r f c x)" "gain_inv (mounted d r f c x)"
  "env_inv (mounted d r f c x)"
  by (simp_all add: mounted_def decodeTTS_def loadBg_def src_inv_def src_ok_def rec_inv_def
      rec_ok_def gain_inv_def env_inv_def split: sum.splits option.splits decode_result.splits)

lemma reachable_inv:
  "src_inv (run es (mounted d r f c x))" "rec_inv (run es (mounted d r f c x))"
  "gain_inv (run es (mounted d r f c x))" "env_inv (run es (mounted d r f c x))"
  by (rule run_invariant, erule src_inv_step, rule mounted_inv)
     (rule run_invariant, erule rec_inv_step, rule mounted_inv,
      rule run_invariant, erule gain_inv_step, rule mounted_inv,
      rule run_invariant, erule env_inv_step, rule mounted_inv)

lemma filter_at_most_one:
  "(\<And>i. i < length xs \<Longrightarrow> P (xs ! i) \<Longrightarrow> i = k) \<Longrightarrow> length (filter P xs) \<le> 1"
proof (induction xs arbitrary: k)
  case Nil
  then show ?case by simp
next
  case (Cons x xs)
  show ?case
  proof (cases "P x")
    case True
    with Cons.prems [of 0] have k: "k = 0" by simp
    have "\<not> P y" if "y \<in> set xs" for y
    proof
      assume "P y"
      from that obtain i where "i < length xs" "xs ! i = y" by (auto simp: in_set_conv_nth)
      with \<open>P y\<close> Cons.prems [of "Suc i"] k show False by simp
    qed
    then have "filter P xs = []" by (simp add: filter_empty_conv)
    with True show ?thesis by simp
  next
    case False
    have "length (filter P xs) \<le> 1"
    proof (rule Cons.IH [of "k - 1"])
      fix i assume "i < length xs" "P (xs ! i)"
      with Cons.prems [of "Suc i"] show "i = k - 1" by simp
    qed
    with False show ?thesis by simp
  qed
qed

lemma src_ok_feeding:
  assumes "src_ok l v b"
  shows "length (filter (\<lambda>src. active src \<and> src_output src = Some Voice) l) \<le> 1"
    and "length (filter (\<lambda>src. active src \<and> src_output src = Some Background) l) \<le> 1"
    and "filter (\<lambda>src. active src \<and> src_output src = Some Original) l = []"
    and "list_all (\<lambda>src. src_output src \<noteq> None) (filter active l)"
proof -
  show "length (filter (\<lambda>src. active src \<and> src_output src = Some Voice) l) \<le> 1"
    by (rule filter_at_most_one [where k = "the v"]) (use assms in \<open>auto simp: src_ok_def\<close>)
  show "length (filter (\<lambda>src. active src \<and> src_output src = Some Background) l) \<le> 1"
    by (rule filter_at_most_one [where k = "the b"]) (use assms in \<open>auto simp: src_ok_def\<close>)
  show "filter (\<lambda>src. active src \<and> src_output src = Some Original) l = []"
  proof -
    have "\<not> (active (l ! i) \<and> src_output (l ! i) = Some Original)" if "i < length l" for i
      using assms that unfolding src_ok_def by fastforce
    then show ?thesis
      by (auto simp: filter_empty_conv in_set_conv_nth)
  qed
  show "list_all (\<lambda>src. src_output src \<noteq> None) (filter active l)"
  proof -
    have "src_output (l ! i) \<noteq> None" if "i < length l" "active (l ! i)" for i
      using assms that unfolding src_ok_def by fastforce
    then show ?thesis
      by (auto simp: list_all_iff in_set_conv_nth)
  qed
qed

lemma stopped_None [simp]: "stopped l None None = l"
  by (simp add: stopped_def)

lemma earlier_play:
  "videoRef s \<Longrightarrow> audioContextRef s \<noteq> None \<Longrightarrow> earlier_sources s (play s) = stopped_sources s"
  by (simp add: earlier_sources_def play_sources_eq)

lemma earlier_performExport:
  "videoRef s \<Longrightarrow> audioContextRef s \<noteq> None \<Longrightarrow> voiceBufferRef s \<noteq> None \<Longrightarrow>
   earlier_sources s (performExport k s) = stopped_sources s"
  by (simp add: earlier_sources_def performExport_def Let_def play_sources_eq del: not_None_eq)

lemma earlier_handleSeek:
  "videoRef s \<Longrightarrow> audioContextRef s \<noteq> None \<Longrightarrow> isPlaying s \<Longrightarrow>
   earlier_sources s (handleSeek t s) = stopped_sources s"
  by (simp add: earlier_sources_def handleSeek_def Let_def play_sources_eq del: not_None_eq)

lemma pause_silent: "src_inv s \<Longrightarrow> active_sources (pause s) = []"
  using stopped_sources_torn [of s]
  by (simp add: active_sources_def all_torn_def filter_empty_conv list_all_iff)

text \<open>
  Claim C5. In every state the component can reach, at most one active source feeds the
  Voice gain and at most one the Background gain, none feeds the Original gain, and no
  source is active without being connected: the active sources are those of one session.
  Every \<open>play\<close>, also the one of a seek while playing and the one of an export, leaves all
  sources that existed before it torn down, and \<open>play\<close> followed by \<open>pause\<close> leaves no
  active source.
\<close>

theorem one_playback_session:
  "let s = run es (mounted data rate file capture ctx) in
     length (feeding Voice s) \<le> 1 \<and> length (feeding Background s) \<le> 1
     \<and> feeding Original s = []
     \<and> list_all (\<lambda>src. src_output src \<noteq> None) (active_sources s)
     \<and> all_torn (earlier_sources s (play s))
     \<and> (isPlaying s \<longrightarrow> all_torn (earlier_sources s (handleSeek t s)))
     \<and> (voiceBufferRef s \<noteq> None \<longrightarrow> all_torn (earlier_sources s (performExport k s)))
     \<and> active_sources (pause (play s)) = []"
proof -
  define s where "s = run es (mounted data rate file capture ctx)"
  have src: "src_inv s" and env: "env_inv s"
    unfolding s_def by (rule reachable_inv)+
  from env have v: "videoRef s" "audioContextRef s \<noteq> None" by (simp_all add: env_inv_def)
  from src have ok: "src_ok (sources s) (voiceSourceRef s) (bgSourceRef s)"
    by (simp add: src_inv_def)
  have torn: "all_torn (stopped_sources s)" by (rule stopped_sources_torn [OF src])
  have "length (feeding Voice s) \<le> 1" "length (feeding Background s) \<le> 1"
    "feeding Original s = []" "list_all (\<lambda>src. src_output src \<noteq> None) (active_sources s)"
    unfolding feeding_def active_sources_def by (rule src_ok_feeding [OF ok])+
  moreover have "all_torn (earlier_sources s (play s))"
    using torn by (simp add: earlier_play [OF v])
  moreover have "isPlaying s \<longrightarrow> all_torn (earlier_sources s (handleSeek t s))"
    using torn by (simp add: earlier_handleSeek [OF v])
  moreover have "voiceBufferRef s \<noteq> None \<longrightarrow> all_torn (earlier_sources s (performExport k s))"
    using torn by (simp add: earlier_performExport [OF v] del: not_None_eq)
  moreover have "active_sources (pause (play s)) = []"
    by (rule pause_silent [OF src_inv_play [OF src]])
  ultimately show ?thesis unfolding s_def [symmetric] Let_def by blast
qed

subsection \<open>The scenario, evaluated\<close>

lemma int16_view_replicate: "int16_view (replicate (2 * n) b) = replicate n (word_cat b b)"
  by (induction n) simp_all

lemma silent_samples:
  "map (\<lambda>i. real_of_int (sint (replicate n (0 :: 16 word) ! i)) / 32768) [0..<n] = replicate n 0"
  by (rule nth_equalityI) simp_all

lemma decode_voice5: "decodeAudioData (replicate 80000 0) webaudio 8000 = Inr voice5"
proof -
  have e: "even (length (replicate 80000 (0 :: byte)))" by simp
  have ne: "replicate 80000 (0 :: byte) \<noteq> []" by simp
  have v: "int16_view (replicate 80000 (0 :: byte)) = replicate 40000 0"
    using int16_view_replicate [of 40000 "0 :: byte"] by simp
  from decodeAudioData_even [OF e ne webaudio_rates(1)] show ?thesis
    by (simp add: v silent_samples voice5_def del: of_int_sint)
qed

lemma durations: "duration voice5 = 5" "duration bg3 = 3"
  by (simp_all add: duration_def voice5_def bg3_def)

lemma scenario_eq:
  "scenario =
     \<lparr>audioData = replicate 80000 0, sampleRateProp = 8000, backgroundAudioFile = True,
      captureStream = True,
      videoRef = True, video_currentTime = 0, video_paused = True, video_onended = NoHandler,
      audioContextRef = Some webaudio,
      voiceSourceRef = None,
      voiceGain = \<lparr>gain_value = 1, outputs = {Destination}\<rparr>,
      voiceBufferRef = Some voice5,
      bgSourceRef = None,
      bgGain = \<lparr>gain_value = 2 / 10, outputs = {Destination}\<rparr>,
      bgBufferRef = Some bg3,
      originalGain = \<lparr>gain_value = 5 / 10, outputs = {Destination}\<rparr>,
      destRef = None, mediaRecorderRef = None, chunksRef = [],
      sources = [], dests = 0, recorders = [],
      isPlaying = False, isReady = True, isRendering = False, renderType = None,
      currentTime = 0,
      volume = 1, bgVolume = 2 / 10, originalVolume = 5 / 10,
      isVoiceMuted = False, isBgMuted = False, isOriginalMuted = False,
      downloads = [], alerts = [], console = []\<rparr>"
  by (simp add: scenario_def mounted_def decodeTTS_def loadBg_def decode_voice5)

lemma scenario_seek6: "run [Seek 6] scenario = scenario\<lparr>currentTime := 6, video_currentTime := 6\<rparr>"
  by (simp add: run_Nil run_Cons scenario_eq handleSeek_def)

lemma scenario_play_at_6:
  "play (run [Seek 6] scenario) =
     scenario\<lparr>currentTime := 6, video_currentTime := 6, audioContextRef := Some (webaudio\<lparr>context_state := Running\<rparr>),
       sources := [voice_source voice5 6, bg_source bg3 (Some 0)],
       voiceSourceRef := Some 0, bgSourceRef := Some 1, video_paused := False, isPlaying := True\<rparr>"
  by (simp add: run_Nil run_Cons scenario_eq handleSeek_def play_def stopSources_eq js_rem_def durations Let_def)

lemma scenario_playing:
  "run [ClickOverlay] scenario =
     scenario\<lparr>audioContextRef := Some (webaudio\<lparr>context_state := Running\<rparr>),
       sources := [voice_source voice5 0, bg_source bg3 (Some 0)],
       voiceSourceRef := Some 0, bgSourceRef := Some 1, video_paused := False, isPlaying := True\<rparr>"
  by (simp add: run_Nil run_Cons scenario_eq play_def stopSources_eq js_rem_def durations Let_def)

subsection \<open>Playback offsets\<close>

lemma js_rem_mod:
  "0 \<le> a \<Longrightarrow> 0 < b \<Longrightarrow> js_rem a b = Some (a - b * of_int \<lfloor>a / b\<rfloor>)"
  by (simp add: js_rem_def)

lemma js_rem_range:
  assumes "0 \<le> a" "0 < b"
  shows "0 \<le> a - b * of_int \<lfloor>a / b\<rfloor> \<and> a - b * of_int \<lfloor>a / b\<rfloor> < b"
proof -
  have "b * of_int \<lfloor>a / b\<rfloor> \<le> b * (a / b)"
    using assms by (intro mult_left_mono) simp_all
  then have 1: "b * of_int \<lfloor>a / b\<rfloor> \<le> a" using assms by simp
  have "a / b < of_int \<lfloor>a / b\<rfloor> + 1" by linarith
  then have "b * (a / b) < b * (of_int \<lfloor>a / b\<rfloor> + 1)"
    using assms by (intro mult_strict_left_mono) simp_all
  then have 2: "a < b * of_int \<lfloor>a / b\<rfloor> + b" using assms by (simp add: algebra_simps)
  from 1 2 show ?thesis by simp
qed

text \<open>
  Claim C3. \<open>play\<close> at video time \<open>t\<close> (with the video element and the audio context
  present, \<open>t\<close> not negative and the background buffer of positive duration): a Voice
  buffer gives a one-shot source connected to the Voice gain, started at offset \<open>t\<close> when
  \<open>t\<close> is below the voice duration and not started otherwise; a Background buffer gives a
  looping source connected to the Background gain, started at \<open>t mod backgroundDuration\<close>,
  whatever the Voice source does. Without a buffer the channel gets no source.
\<close>

theorem play_starts_sources:
  assumes "videoRef s" and "audioContextRef s \<noteq> None" and "0 \<le> video_currentTime s"
    and "\<forall>bb. bgBufferRef s = Some bb \<longrightarrow> 0 < duration bb"
  shows "(\<forall>vb. voiceBufferRef s = Some vb \<longrightarrow>
            (\<exists>i < length (sources (play s)). voiceSourceRef (play s) = Some i
               \<and> sources (play s) ! i
                   = \<lparr>src_buffer = vb, src_loop = False, src_output = Some Voice,
                      src_offset = (if video_currentTime s < duration vb
                                    then Some (video_currentTime s) else None),
                      src_stopped = False\<rparr>))
       \<and> (\<forall>bb. bgBufferRef s = Some bb \<longrightarrow>
            (\<exists>j < length (sources (play s)). bgSourceRef (play s) = Some j
               \<and> sources (play s) ! j
                   = \<lparr>src_buffer = bb, src_loop = True, src_output = Some Background,
                      src_offset = Some (video_currentTime s
                         - duration bb * of_int \<lfloor>video_currentTime s / duration bb\<rfloor>),
                      src_stopped = False\<rparr>
               \<and> 0 \<le> video_currentTime s
                         - duration bb * of_int \<lfloor>video_currentTime s / duration bb\<rfloor>
               \<and> video_currentTime s
                         - duration bb * of_int \<lfloor>video_currentTime s / duration bb\<rfloor>
                     < duration bb))
       \<and> (voiceBufferRef s = None \<longrightarrow> voiceSourceRef (play s) = None)
       \<and> (bgBufferRef s = None \<longrightarrow> bgSourceRef (play s) = None)"
proof -
  note v = assms(1,2)
  have voice: "\<exists>i < length (sources (play s)). voiceSourceRef (play s) = Some i
      \<and> sources (play s) ! i = voice_source vb (video_currentTime s)"
    if "voiceBufferRef s = Some vb" for vb
    using that play_refs [OF v]
    by (intro exI [of _ "length (sources s)"])
      (simp add: play_sources_eq [OF v] nth_append split: option.splits)
  have bg: "\<exists>j < length (sources (play s)). bgSourceRef (play s) = Some j
      \<and> sources (play s) ! j
          = bg_source bb (Some (video_currentTime s
                - duration bb * of_int \<lfloor>video_currentTime s / duration bb\<rfloor>))"
    if "bgBufferRef s = Some bb" for bb
  proof -
    from that assms(4) have pos: "0 < duration bb" by simp
    show ?thesis
      using that play_refs [OF v] js_rem_mod [OF assms(3) pos]
      by (intro exI [of _ "length (sources s)
              + (case voiceBufferRef s of None \<Rightarrow> 0 | Some vb \<Rightarrow> 1)"])
        (simp add: play_sources_eq [OF v] nth_append split: option.splits)
  qed
  have range: "0 \<le> video_currentTime s
        - duration bb * of_int \<lfloor>video_currentTime s / duration bb\<rfloor>
      \<and> video_currentTime s - duration bb * of_int \<lfloor>video_currentTime s / duration bb\<rfloor>
        < duration bb"
    if "bgBufferRef s = Some bb" for bb
    using that assms(3,4) js_rem_range by simp
  have none: "voiceBufferRef s = None \<longrightarrow> voiceSourceRef (play s) = None"
    "bgBufferRef s = None \<longrightarrow> bgSourceRef (play s) = None"
    using play_refs [OF v] by simp_all
  from voice bg range none show ?thesis
    unfolding voice_source_def bg_source_def by blast
qed


theorem play_starts_sources_witness:
  "videoRef (run [Seek 6] scenario) \<and> audioContextRef (run [Seek 6] scenario) \<noteq> None
   \<and> 0 \<le> video_currentTime (run [Seek 6] scenario)
   \<and> 0 < duration bg3
   \<and> video_currentTime (run [Seek 6] scenario) = 6
   \<and> voiceBufferRef (run [Seek 6] scenario) = Some voice5 \<and> duration voice5 = 5
   \<and> bgBufferRef (run [Seek 6] scenario) = Some bg3 \<and> duration bg3 = 3
   \<and> (\<exists>i < length (sources (play (run [Seek 6] scenario))).
          voiceSourceRef (play (run [Seek 6] scenario)) = Some i
          \<and> src_offset (sources (play (run [Seek 6] scenario)) ! i) = None)
   \<and> (\<exists>j < length (sources (play (run [Seek 6] scenario))).
          bgSourceRef (play (run [Seek 6] scenario)) = Some j
          \<and> src_loop (sources (play (run [Seek 6] scenario)) ! j)
          \<and> src_offset (sources (play (run [Seek 6] scenario)) ! j) = Some 0)"
proof -
  let ?s = "run [Seek 6] scenario"
  have f: "videoRef ?s" "audioContextRef ?s \<noteq> None" "0 \<le> video_currentTime ?s"
    "video_currentTime ?s = 6" "voiceBufferRef ?s = Some voice5" "bgBufferRef ?s = Some bg3"
    unfolding scenario_seek6 by (simp_all add: scenario_eq)
  have pos: "\<forall>bb. bgBufferRef ?s = Some bb \<longrightarrow> 0 < duration bb"
    by (simp add: f durations)
  from play_starts_sources [OF f(1) f(2) f(3) pos] f(5) f(6)
  have "(\<exists>i < length (sources (play ?s)). voiceSourceRef (play ?s) = Some i
           \<and> sources (play ?s) ! i
               = \<lparr>src_buffer = voice5, src_loop = False, src_output = Some Voice,
                  src_offset = (if video_currentTime ?s < duration voice5
                                then Some (video_currentTime ?s) else None),
                  src_stopped = False\<rparr>)"
    and "(\<exists>j < length (sources (play ?s)). bgSourceRef (play ?s) = Some j
           \<and> sources (play ?s) ! j
               = \<lparr>src_buffer = bg3, src_loop = True, src_output = Some Background,
                  src_offset = Some (video_currentTime ?s
                     - duration bg3 * of_int \<lfloor>video_currentTime ?s / duration bg3\<rfloor>),
                  src_stopped = False\<rparr>
           \<and> 0 \<le> video_currentTime ?s
                     - duration bg3 * of_int \<lfloor>video_currentTime ?s / duration bg3\<rfloor>
           \<and> video_currentTime ?s
                     - duration bg3 * of_int \<lfloor>video_currentTime ?s / duration bg3\<rfloor>
                 < duration bg3)"
    by blast+
  then have "\<exists>i < length (sources (play ?s)). voiceSourceRef (play ?s) = Some i
          \<and> src_offset (sources (play ?s) ! i) = None"
    and "\<exists>j < length (sources (play ?s)). bgSourceRef (play ?s) = Some j
          \<and> src_loop (sources (play ?s) ! j)
          \<and> src_offset (sources (play ?s) ! j) = Some 0"
    unfolding f(4) durations by auto
  moreover have "0 < duration bg3" by (simp add: durations)
  ultimately show ?thesis using f durations by blast
qed

subsection \<open>Seeking while playing\<close>

lemma play_after_pause:
  assumes "videoRef s" and "audioContextRef s \<noteq> None" and "\<not> play_rejects s"
  shows "play (pause s) = play s"
proof -
  from assms(2) obtain c where c: "audioContextRef s = Some c" by auto
  show ?thesis
  proof (cases "bgBufferRef s")
    case None
    with assms(1) c show ?thesis
      by (cases "voiceBufferRef s") (simp_all add: play_def pause_def stopSources_eq Let_def)
  next
    case (Some bb)
    with assms c obtain off where "js_rem (video_currentTime s) (duration bb) = Some off"
      by (auto simp: play_rejects_def)
    with Some assms(1) c show ?thesis
      by (cases "voiceBufferRef s") (simp_all add: play_def pause_def stopSources_eq Let_def)
  qed
qed

lemma position_eq:
  "s\<lparr>currentTime := t, video_currentTime := t\<rparr> = s\<lparr>video_currentTime := t, currentTime := t\<rparr>"
  by (cases s) simp

text \<open>
  Claim C4. In every reachable state that is Playing, a seek to \<open>t\<close> gives the same state as
  \<open>pause\<close> followed by \<open>play\<close> with the video positioned at \<open>t\<close>; every source that existed
  before the seek is torn down, and the sources added are the Voice and Background sources
  for offset \<open>t\<close>. (The background buffer is of positive duration, \<open>t\<close> is not negative.)
\<close>

theorem seek_while_playing:
  assumes "s = run es (mounted data rate file capture ctx)"
    and "isPlaying s" and "0 \<le> t"
    and "\<forall>bb. bgBufferRef s = Some bb \<longrightarrow> 0 < duration bb"
  shows "handleSeek t s = play (pause (step (VideoTimeUpdate t) s))
       \<and> all_torn (earlier_sources s (handleSeek t s))
       \<and> drop (length (sources s)) (sources (handleSeek t s))
           = (case voiceBufferRef s of None \<Rightarrow> [] | Some vb \<Rightarrow> [voice_source vb t])
             @ (case bgBufferRef s of None \<Rightarrow> []
                | Some bb \<Rightarrow> [bg_source bb (Some (t - duration bb * of_int \<lfloor>t / duration bb\<rfloor>))])"
proof -
  have src: "src_inv s" and env: "env_inv s"
    unfolding assms(1) by (rule reachable_inv)+
  from env have v: "videoRef s" "audioContextRef s \<noteq> None" by (simp_all add: env_inv_def)
  let ?p = "s\<lparr>video_currentTime := t, currentTime := t\<rparr>"
  have pv: "videoRef ?p" "audioContextRef ?p \<noteq> None" using v by simp_all
  have rem: "js_rem t (duration bb) = Some (t - duration bb * of_int \<lfloor>t / duration bb\<rfloor>)"
    if "bgBufferRef s = Some bb" for bb
    using that assms(3,4) by (simp add: js_rem_mod)
  have nr: "\<not> play_rejects ?p"
  proof (cases "bgBufferRef s")
    case None
    then show ?thesis by (simp add: play_rejects_def)
  next
    case (Some bb)
    with rem [OF Some] show ?thesis by (simp add: play_rejects_def)
  qed
  have seek: "handleSeek t s = play ?p"
    using v(1) assms(2) by (simp add: handleSeek_def position_eq)
  have upd: "step (VideoTimeUpdate t) s = ?p"
    using v(1) assms(3) by simp
  have 1: "handleSeek t s = play (pause (step (VideoTimeUpdate t) s))"
    unfolding upd seek by (rule play_after_pause [OF pv nr, symmetric])
  have 2: "all_torn (earlier_sources s (handleSeek t s))"
    unfolding earlier_handleSeek [OF v assms(2)] by (rule stopped_sources_torn [OF src])
  have 3: "drop (length (sources s)) (sources (handleSeek t s))
           = (case voiceBufferRef s of None \<Rightarrow> [] | Some vb \<Rightarrow> [voice_source vb t])
             @ (case bgBufferRef s of None \<Rightarrow> []
                | Some bb \<Rightarrow> [bg_source bb (Some (t - duration bb * of_int \<lfloor>t / duration bb\<rfloor>))])"
  proof (cases "bgBufferRef s")
    case None
    then show ?thesis by (simp add: seek play_sources_eq [OF pv] split: option.splits)
  next
    case (Some bb)
    with rem [OF Some] show ?thesis
      by (simp add: seek play_sources_eq [OF pv] split: option.splits)
  qed
  from 1 2 3 show ?thesis by (intro conjI)
qed

theorem seek_while_playing_witness:
  "run [ClickOverlay] scenario
     = run [ClickOverlay] (mounted (replicate 80000 0) 8000 (Some (Decoded bg3)) True webaudio)
   \<and> isPlaying (run [ClickOverlay] scenario) \<and> (0::real) \<le> 2
   \<and> bgBufferRef (run [ClickOverlay] scenario) = Some bg3 \<and> 0 < duration bg3
   \<and> handleSeek 2 (run [ClickOverlay] scenario)
       = play (pause (step (VideoTimeUpdate 2) (run [ClickOverlay] scenario)))
   \<and> all_torn (earlier_sources (run [ClickOverlay] scenario)
         (handleSeek 2 (run [ClickOverlay] scenario)))
   \<and> drop (length (sources (run [ClickOverlay] scenario)))
         (sources (handleSeek 2 (run [ClickOverlay] scenario)))
       = [voice_source voice5 2, bg_source bg3 (Some 2)]"
proof -
  let ?s = "run [ClickOverlay] scenario"
  have a: "?s = run [ClickOverlay] (mounted (replicate 80000 0) 8000 (Some (Decoded bg3)) True webaudio)"
    by (simp only: scenario_def)
  have f: "isPlaying ?s" "voiceBufferRef ?s = Some voice5" "bgBufferRef ?s = Some bg3"
    unfolding scenario_playing by (simp_all add: scenario_eq)
  have t: "(0::real) \<le> 2" by simp
  have pos: "\<forall>bb. bgBufferRef ?s = Some bb \<longrightarrow> 0 < duration bb"
    by (simp add: f durations)
  note th = seek_while_playing [OF a f(1) t pos]
  from th have "drop (length (sources ?s)) (sources (handleSeek 2 ?s))
      = (case voiceBufferRef ?s of None \<Rightarrow> [] | Some vb \<Rightarrow> [voice_source vb 2])
        @ (case bgBufferRef ?s of None \<Rightarrow> []
           | Some bb \<Rightarrow> [bg_source bb (Some (2 - duration bb * of_int \<lfloor>2 / duration bb\<rfloor>))])"
    by (rule conjunct2 [THEN conjunct2])
  then have "drop (length (sources ?s)) (sources (handleSeek 2 ?s))
      = [voice_source voice5 2, bg_source bg3 (Some 2)]"
    unfolding f(2) f(3) by (simp add: durations)
  moreover have "0 < duration bg3" by (simp add: durations)
  ultimately show ?thesis using th a f(1) f(3) t by blast
qed

theorem one_playback_session_witness:
  "isPlaying (run [ClickOverlay] scenario) \<and> voiceBufferRef (run [ClickOverlay] scenario) \<noteq> None
   \<and> length (feeding Voice (run [ClickOverlay] scenario)) \<le> 1
   \<and> length (feeding Background (run [ClickOverlay] scenario)) \<le> 1
   \<and> all_torn (earlier_sources (run [ClickOverlay] scenario) (play (run [ClickOverlay] scenario)))
   \<and> all_torn (earlier_sources (run [ClickOverlay] scenario)
         (handleSeek 2 (run [ClickOverlay] scenario)))
   \<and> all_torn (earlier_sources (run [ClickOverlay] scenario)
         (performExport Audio (run [ClickOverlay] scenario)))
   \<and> active_sources (pause (play (run [ClickOverlay] scenario))) = []
   \<and> length (active_sources (run [ClickOverlay] scenario)) = 2"
proof -
  let ?s = "run [ClickOverlay] scenario"
  have f: "isPlaying ?s" "voiceBufferRef ?s \<noteq> None"
    unfolding scenario_playing by (simp_all add: scenario_eq)
  have n: "length (active_sources ?s) = 2"
    unfolding scenario_playing
    by (simp add: active_sources_def active_def voice_source_def bg_source_def)
  from one_playback_session [of "[ClickOverlay]" "replicate 80000 0" 8000
      "Some (Decoded bg3)" True webaudio 2 Audio, folded scenario_def] f n
  show ?thesis unfolding Let_def by blast
qed

subsection \<open>Decoding failures\<close>

text \<open>
  Claim C7. A voice byte string of odd length is not decoded: \<open>decodeAudioData\<close> fails with
  the \<^verbatim>\<open>RangeError\<close> of the typed-array constructor (the spec's MalformedAudio) and returns
  no buffer. The error reaches the caller, the decoding effect, which logs it once and
  leaves the voice buffer and \<open>isReady\<close> as they were; nothing retries.
\<close>

theorem decodeAudioData_odd_length:
  assumes "length data mod 2 \<noteq> 0"
  shows "decodeAudioData data ctx rate = Inl RangeError
       \<and> (\<forall>buffer. decodeAudioData data ctx rate \<noteq> Inr buffer)
       \<and> (\<forall>s. audioContextRef s \<noteq> None \<longrightarrow>
             voiceBufferRef (step (NewAudioData data rate) s) = voiceBufferRef s
             \<and> isReady (step (NewAudioData data rate) s) = isReady s
             \<and> console (step (NewAudioData data rate) s) = console s @ [''Audio decoding error''])"
proof -
  from assms have "odd (length data)" by presburger
  then have e: "decodeAudioData data c rate = Inl RangeError" for c
    by (rule decodeAudioData_odd)
  then show ?thesis
    by (auto simp: decodeTTS_def)
qed

theorem decodeAudioData_odd_length_witness:
  "length [0, 128, 255 :: byte] mod 2 \<noteq> 0
   \<and> decodeAudioData [0, 128, 255] webaudio 24000 = Inl RangeError
   \<and> audioContextRef scenario \<noteq> None
   \<and> voiceBufferRef (step (NewAudioData [0, 128, 255] 24000) scenario) = Some voice5
   \<and> console (step (NewAudioData [0, 128, 255] 24000) scenario) = [''Audio decoding error'']"
proof -
  have h: "length [0, 128, 255 :: byte] mod 2 \<noteq> 0" by simp
  have c: "audioContextRef scenario \<noteq> None" "voiceBufferRef scenario = Some voice5"
    "console scenario = []"
    by (simp_all add: scenario_eq)
  from decodeAudioData_odd_length [OF h, of webaudio 24000] c h show ?thesis by simp
qed

text \<open>
  Claim C10. When the platform fails to decode a newly selected background file (the audio
  context being present, as it is once mounted), the Background buffer is left as it was:
  a buffer loaded earlier is the one the next \<open>play\<close> starts, and after a succession of
  selected files the channel is empty exactly when it was empty before and no decode
  succeeded.
\<close>

theorem failed_background_decode:
  assumes "audioContextRef s \<noteq> None"
  shows "bgBufferRef (step (NewBackgroundFile (Some DecodeFailed)) s) = bgBufferRef s
       \<and> (videoRef s \<longrightarrow> (\<forall>bb. bgBufferRef s = Some bb \<longrightarrow>
             (\<exists>j < length (sources (play (step (NewBackgroundFile (Some DecodeFailed)) s))).
                bgSourceRef (play (step (NewBackgroundFile (Some DecodeFailed)) s)) = Some j
                \<and> src_buffer (sources (play (step (NewBackgroundFile (Some DecodeFailed)) s)) ! j)
                    = bb)))
       \<and> (bgBufferRef (run (map (\<lambda>d. NewBackgroundFile (Some d)) ds) s) = None
            \<longleftrightarrow> bgBufferRef s = None \<and> list_all (\<lambda>d. d = DecodeFailed) ds)"
proof -
  let ?s' = "step (NewBackgroundFile (Some DecodeFailed)) s"
  from assms obtain c where c: "audioContextRef s = Some c" by auto
  have keep: "bgBufferRef ?s' = bgBufferRef s"
    using c by (simp add: loadBg_def)
  have ctx: "audioContextRef ?s' \<noteq> None" "videoRef ?s' = videoRef s"
    "length (sources ?s') = length (sources s)"
    using c by (simp_all add: loadBg_def)
  have used: "\<exists>j < length (sources (play ?s')). bgSourceRef (play ?s') = Some j
      \<and> src_buffer (sources (play ?s') ! j) = bb"
    if v: "videoRef s" and b: "bgBufferRef s = Some bb" for bb
  proof -
    from v ctx have v': "videoRef ?s'" by simp
    from b keep have b': "bgBufferRef ?s' = Some bb" by simp
    show ?thesis
      using play_refs [OF v' ctx(1)] b'
      by (intro exI [of _ "length (sources ?s')
              + (case voiceBufferRef ?s' of None \<Rightarrow> 0 | Some vb \<Rightarrow> 1)"])
        (simp add: play_sources_eq [OF v' ctx(1)] nth_append bg_source_def
          del: step.simps split: option.splits)
  qed
  have seq: "audioContextRef s \<noteq> None \<Longrightarrow>
      bgBufferRef (run (map (\<lambda>d. NewBackgroundFile (Some d)) ds) s) = None
        \<longleftrightarrow> bgBufferRef s = None \<and> list_all (\<lambda>d. d = DecodeFailed) ds" for s
  proof (induction ds arbitrary: s)
    case Nil
    then show ?case by (simp add: run_Nil)
  next
    case (Cons d ds)
    from Cons.prems obtain c where c: "audioContextRef s = Some c" by auto
    have "audioContextRef (step (NewBackgroundFile (Some d)) s) \<noteq> None"
      using c by (cases d) (simp_all add: loadBg_def)
    from Cons.IH [OF this] c show ?case
      by (cases d) (auto simp: run_Cons loadBg_def)
  qed
  from keep used seq [OF assms] show ?thesis by blast
qed


theorem failed_background_decode_witness:
  "audioContextRef scenario \<noteq> None \<and> videoRef scenario \<and> bgBufferRef scenario = Some bg3
   \<and> bgBufferRef (step (NewBackgroundFile (Some DecodeFailed)) scenario) = Some bg3
   \<and> (\<exists>j < length (sources (play (step (NewBackgroundFile (Some DecodeFailed)) scenario))).
          bgSourceRef (play (step (NewBackgroundFile (Some DecodeFailed)) scenario)) = Some j
          \<and> src_buffer (sources (play (step (NewBackgroundFile (Some DecodeFailed)) scenario)) ! j)
              = bg3)
   \<and> bgBufferRef (run (map (\<lambda>d. NewBackgroundFile (Some d)) [DecodeFailed, DecodeFailed])
          scenario_no_capture) = None
   \<and> bgBufferRef (run (map (\<lambda>d. NewBackgroundFile (Some d)) [DecodeFailed, Decoded bg3, DecodeFailed])
          scenario_no_capture) \<noteq> None"
proof -
  have c: "audioContextRef scenario \<noteq> None" "videoRef scenario" "bgBufferRef scenario = Some bg3"
    by (simp_all add: scenario_eq)
  have n: "audioContextRef scenario_no_capture \<noteq> None" "bgBufferRef scenario_no_capture = None"
    by (simp_all add: scenario_no_capture_def mounted_def decodeTTS_def loadBg_def
        split: sum.splits)
  note a = failed_background_decode [OF c(1)]
  note b = failed_background_decode [OF n(1), of "[DecodeFailed, DecodeFailed]"]
  note b' = failed_background_decode [OF n(1), of "[DecodeFailed, Decoded bg3, DecodeFailed]"]
  from a c have 1: "bgBufferRef (step (NewBackgroundFile (Some DecodeFailed)) scenario) = Some bg3"
    by simp
  from a c have 2: "\<exists>j < length (sources (play (step (NewBackgroundFile (Some DecodeFailed)) scenario))).
          bgSourceRef (play (step (NewBackgroundFile (Some DecodeFailed)) scenario)) = Some j
          \<and> src_buffer (sources (play (step (NewBackgroundFile (Some DecodeFailed)) scenario)) ! j)
              = bg3"
    by blast
  from b n have 3: "bgBufferRef (run (map (\<lambda>d. NewBackgroundFile (Some d)) [DecodeFailed, DecodeFailed])
          scenario_no_capture) = None"
    by simp
  from b' n have 4: "bgBufferRef (run (map (\<lambda>d. NewBackgroundFile (Some d))
          [DecodeFailed, Decoded bg3, DecodeFailed]) scenario_no_capture) \<noteq> None"
    by simp
  from c 1 2 3 4 show ?thesis by blast
qed

subsection \<open>Volume and mute\<close>

lemma gain_inv_channel:
  "gain_inv s \<longleftrightarrow> (\<forall>c. gain_value (gain_of c s) = (if muted c s then 0 else stored_gain c s))"
proof
  assume g: "gain_inv s"
  show "\<forall>c. gain_value (gain_of c s) = (if muted c s then 0 else stored_gain c s)"
  proof
    fix c
    from g show "gain_value (gain_of c s) = (if muted c s then 0 else stored_gain c s)"
      by (cases c) (simp_all add: gain_inv_def)
  qed
next
  assume a: "\<forall>c. gain_value (gain_of c s) = (if muted c s then 0 else stored_gain c s)"
  from a [rule_format, of Voice] a [rule_format, of Background] a [rule_format, of Original]
  show "gain_inv s" by (simp add: gain_inv_def)
qed

lemma toggleMute_effect:
  "muted c (toggleMute c s) = (\<not> muted c s)"
  "stored_gain c (toggleMute c s) = stored_gain c s"
  "gain_value (gain_of c (toggleMute c s)) = (if muted c s then stored_gain c s else 0)"
  by (cases c; simp add: toggleMute_def voiceGainEffect_def bgGainEffect_def originalGainEffect_def)+


lemma muted_frozen_step:
  assumes "muted c s" and "e \<noteq> ClickMute c"
  shows "muted c (step e s) \<and> stored_gain c (step e s) = stored_gain c s"
proof (cases e)
  case (MoveVolume c' v)
  with assms(1) show ?thesis
    by (cases c; cases c')
      (simp_all add: voiceGainEffect_def bgGainEffect_def originalGainEffect_def)
next
  case (ClickMute c')
  with assms show ?thesis
    by (cases c; cases c')
      (simp_all add: toggleMute_def voiceGainEffect_def bgGainEffect_def originalGainEffect_def)
next
  case (ClickExport k)
  with assms(1) show ?thesis by (cases c) (simp_all add: performExport_gains)
next
  case VideoEnded
  with assms(1) show ?thesis by (cases c) (simp_all add: video_ended_frame)
next
  case (RecorderStop rid)
  with assms(1) show ?thesis by (cases c) (simp_all add: recorder_onstop_def Let_def)
next
  case (NewAudioData d r)
  with assms(1) show ?thesis by (cases c) (simp_all add: decodeTTS_def split: sum.splits option.splits)
next
  case (NewBackgroundFile f)
  with assms(1) show ?thesis
    by (cases c) (simp_all add: loadBg_def split: option.splits decode_result.splits)
next
  case ClickOverlay
  with assms(1) show ?thesis by (cases c) simp_all
next
  case ClickTogglePlay
  with assms(1) show ?thesis by (cases c) (simp_all add: togglePlay_def)
next
  case (Seek t)
  with assms(1) show ?thesis by (cases c) simp_all
next
  case ClickSaveVoice
  with assms(1) show ?thesis by (cases c) (simp_all add: handleDownloadTTS_def split: option.splits)
next
  case VideoPlay
  with assms(1) show ?thesis by (cases c) simp_all
next
  case VideoPause
  with assms(1) show ?thesis by (cases c) simp_all
next
  case (VideoTimeUpdate t)
  with assms(1) show ?thesis by (cases c) simp_all
next
  case (RecorderData n)
  with assms(1) show ?thesis by (cases c) (simp_all add: recorder_ondataavailable_def)
qed

lemma muted_frozen_run:
  "muted c s \<Longrightarrow> \<not> list_ex (\<lambda>e. e = ClickMute c) es \<Longrightarrow>
   muted c (run es s) \<and> stored_gain c (run es s) = stored_gain c s"
proof (induction es arbitrary: s)
  case Nil
  then show ?case by (simp add: run_Nil)
next
  case (Cons e es)
  from Cons.prems have e: "e \<noteq> ClickMute c" and es: "\<not> list_ex (\<lambda>e. e = ClickMute c) es"
    by simp_all
  from muted_frozen_step [OF Cons.prems(1) e] Cons.IH [OF _ es, of "step e s"]
  show ?case by (simp add: run_Cons)
qed

text \<open>
  Claim C9. In every reachable state and for every channel, the gain node's value is 0 when
  the channel is muted and the stored volume otherwise. Muting an unmuted channel sets the
  node to 0 and keeps the stored volume; whatever happens before the channel's mute button
  is clicked again, unmuting then sets the node to the volume stored before the mute.
\<close>

theorem mute_is_an_overlay:
  "let s = run es (mounted data rate file capture ctx) in
     gain_value (gain_of c s) = (if muted c s then 0 else stored_gain c s)
     \<and> (\<not> muted c s \<longrightarrow>
          muted c (toggleMute c s)
          \<and> gain_value (gain_of c (toggleMute c s)) = 0
          \<and> stored_gain c (toggleMute c s) = stored_gain c s
          \<and> (\<not> list_ex (\<lambda>e. e = ClickMute c) es' \<longrightarrow>
               \<not> muted c (toggleMute c (run es' (toggleMute c s)))
               \<and> stored_gain c (toggleMute c (run es' (toggleMute c s))) = stored_gain c s
               \<and> gain_value (gain_of c (toggleMute c (run es' (toggleMute c s))))
                   = stored_gain c s))"
proof -
  define s where "s = run es (mounted data rate file capture ctx)"
  have "gain_inv s" unfolding s_def by (rule reachable_inv)
  then have 1: "gain_value (gain_of c s) = (if muted c s then 0 else stored_gain c s)"
    by (simp add: gain_inv_channel)
  have 2: "muted c (toggleMute c s) \<and> gain_value (gain_of c (toggleMute c s)) = 0
      \<and> stored_gain c (toggleMute c s) = stored_gain c s" if "\<not> muted c s"
    using that by (simp add: toggleMute_effect)
  have 3: "\<not> muted c (toggleMute c (run es' (toggleMute c s)))
      \<and> stored_gain c (toggleMute c (run es' (toggleMute c s))) = stored_gain c s
      \<and> gain_value (gain_of c (toggleMute c (run es' (toggleMute c s)))) = stored_gain c s"
    if m: "\<not> muted c s" and n: "\<not> list_ex (\<lambda>e. e = ClickMute c) es'"
  proof -
    from m have "muted c (toggleMute c s)" by (simp add: toggleMute_effect)
    from muted_frozen_run [OF this n] show ?thesis
      by (simp add: toggleMute_effect)
  qed
  from 1 2 3 show ?thesis unfolding s_def [symmetric] Let_def by blast
qed

theorem mute_is_an_overlay_witness:
  "\<not> muted Voice (run [MoveVolume Voice (7 / 10)] scenario)
   \<and> \<not> list_ex (\<lambda>e. e = ClickMute Voice) [MoveVolume Voice (3 / 10), ClickOverlay]
   \<and> gain_value (gain_of Voice (run [MoveVolume Voice (7 / 10)] scenario)) = 7 / 10
   \<and> gain_value (gain_of Voice (toggleMute Voice (run [MoveVolume Voice (7 / 10)] scenario))) = 0
   \<and> gain_value (gain_of Voice (toggleMute Voice (run [MoveVolume Voice (3 / 10), ClickOverlay]
        (toggleMute Voice (run [MoveVolume Voice (7 / 10)] scenario))))) = 7 / 10"
proof -
  let ?s = "run [MoveVolume Voice (7 / 10)] scenario"
  have f: "\<not> muted Voice ?s" "stored_gain Voice ?s = 7 / 10"
    by (simp_all add: run_Nil run_Cons scenario_eq voiceGainEffect_def)
  have n: "\<not> list_ex (\<lambda>e. e = ClickMute Voice) [MoveVolume Voice (3 / 10), ClickOverlay]"
    by simp
  from mute_is_an_overlay [of "[MoveVolume Voice (7 / 10)]" "replicate 80000 0" 8000
      "Some (Decoded bg3)" True webaudio Voice "[MoveVolume Voice (3 / 10), ClickOverlay]",
      folded scenario_def] f n
  show ?thesis unfolding Let_def by simp
qed

subsection \<open>Export\<close>

lemma scenario_no_capture_eq:
  "scenario_no_capture =
     \<lparr>audioData = replicate 80000 0, sampleRateProp = 8000, backgroundAudioFile = False,
      captureStream = False,
      videoRef = True, video_currentTime = 0, video_paused = True, video_onended = NoHandler,
      audioContextRef = Some webaudio,
      voiceSourceRef = None,
      voiceGain = \<lparr>gain_value = 1, outputs = {Destination}\<rparr>,
      voiceBufferRef = Some voice5,
      bgSourceRef = None,
      bgGain = \<lparr>gain_value = 2 / 10, outputs = {Destination}\<rparr>,
      bgBufferRef = None,
      originalGain = \<lparr>gain_value = 5 / 10, outputs = {Destination}\<rparr>,
      destRef = None, mediaRecorderRef = None, chunksRef = [],
      sources = [], dests = 0, recorders = [],
      isPlaying = False, isReady = True, isRendering = False, renderType = None,
      currentTime = 0,
      volume = 1, bgVolume = 2 / 10, originalVolume = 5 / 10,
      isVoiceMuted = False, isBgMuted = False, isOriginalMuted = False,
      downloads = [], alerts = [], console = []\<rparr>"
  by (simp add: scenario_no_capture_def mounted_def decodeTTS_def loadBg_def decode_voice5)

lemma export_abort_general:
  assumes "videoRef s" and "audioContextRef s \<noteq> None" and "voiceBufferRef s \<noteq> None"
    and "\<not> captureStream s"
  shows "StreamDest (dests s) \<in> outputs (voiceGain (performExport Video s))
       \<and> StreamDest (dests s) \<in> outputs (bgGain (performExport Video s))
       \<and> StreamDest (dests s) \<in> outputs (originalGain (performExport Video s))
       \<and> renderType (performExport Video s) = Some Video
       \<and> \<not> isRendering (performExport Video s)
       \<and> recorders (performExport Video s) = recorders s"
  using assms
  by (simp add: performExport_def pause_def stopSources_eq Let_def connect_def del: not_None_eq)

text \<open>
  Claim C1. On a ready player whose platform cannot capture the video's frames, clicking
  Export Video starts no recorder and ends with \<open>isRendering\<close> false, but the aborted call
  has already made the capture destination and connected the three gain nodes to it, and it
  returns without undoing that: the destination stays attached to the Voice, Background and
  Original gains, and \<open>destRef\<close> and \<open>renderType\<close> stay set. (The recorder's \<^verbatim>\<open>onstop\<close>, the other
  way back to idle, disconnects the three gains and resets \<open>renderType\<close>.)
\<close>

theorem export_abort_keeps_capture_routing:
  "outputs (voiceGain scenario_no_capture) = {Destination}
   \<and> renderType scenario_no_capture = None \<and> destRef scenario_no_capture = None
   \<and> outputs (voiceGain (step (ClickExport Video) scenario_no_capture))
       = {StreamDest 0, Destination}
   \<and> outputs (bgGain (step (ClickExport Video) scenario_no_capture))
       = {StreamDest 0, Destination}
   \<and> outputs (originalGain (step (ClickExport Video) scenario_no_capture))
       = {StreamDest 0, Destination}
   \<and> renderType (step (ClickExport Video) scenario_no_capture) = Some Video
   \<and> destRef (step (ClickExport Video) scenario_no_capture) = Some 0
   \<and> isRendering (step (ClickExport Video) scenario_no_capture) = False
   \<and> recorders (step (ClickExport Video) scenario_no_capture) = []
   \<and> alerts (step (ClickExport Video) scenario_no_capture)
       = [''Video capture is not supported in this browser.'']"
  by (simp add: scenario_no_capture_eq performExport_def pause_def stopSources_eq Let_def
      connect_def)

lemma filter_update_count:
  "rid < length l \<Longrightarrow>
   length (filter Q (l[rid := x])) + (if Q (l ! rid) then 1 else 0)
     = length (filter Q l) + (if Q x then 1 else 0)"
proof (induction l arbitrary: rid)
  case Nil
  then show ?case by simp
next
  case (Cons a l)
  then show ?case by (cases rid) auto
qed

lemma export_downloads_snoc:
  "export_downloads (s\<lparr>downloads := downloads s @ [export_filename k]\<rparr>)
     = export_downloads s @ [export_filename k]"
  by (cases k) (simp_all add: export_downloads_def)

lemma in_flight_video_ended: "length (in_flight (video_ended s)) = length (in_flight s)"
proof -
  let ?j = "jsx_onEnded (s\<lparr>video_paused := True\<rparr>)"
  have j: "recorders ?j = recorders s" by (simp add: jsx_onEnded_def)
  show ?thesis
  proof (cases "video_onended ?j")
    case NoHandler
    then show ?thesis by (simp add: video_ended_def property_onended_def in_flight_def j)
  next
    case PlainEnded
    then show ?thesis by (simp add: video_ended_def property_onended_def in_flight_def j)
  next
    case (ExportEnded rid)
    show ?thesis
    proof (cases "rid < length (recorders s) \<and> rec_state (recorders s ! rid) = Recording")
      case True
      with filter_update_count [of rid "recorders s" "\<lambda>r. rec_state r \<noteq> Inactive"
          "(recorders s ! rid)\<lparr>rec_state := Stopping\<rparr>"]
      show ?thesis using ExportEnded
        by (simp add: video_ended_def property_onended_def in_flight_def j)
    next
      case False
      then show ?thesis using ExportEnded
        by (auto simp: video_ended_def property_onended_def in_flight_def j list_update_beyond)
    qed
  qed
qed

lemma pending_onstop:
  assumes "rid < length (recorders s)" and "rec_state (recorders s ! rid) = Stopping"
  shows "pending (recorder_onstop rid s) = pending s"
proof -
  from filter_update_count [OF assms(1), of "\<lambda>r. rec_state r \<noteq> Inactive"
      "(recorders s ! rid)\<lparr>rec_state := Inactive\<rparr>"] assms(2)
  have "length (in_flight (recorder_onstop rid s)) + 1 = length (in_flight s)"
    by (simp add: in_flight_def recorder_onstop_def Let_def)
  moreover have "length (export_downloads (recorder_onstop rid s))
      = length (export_downloads s) + 1"
    using export_downloads_snoc [of s "rec_kind (recorders s ! rid)"]
    by (simp add: export_downloads_def recorder_onstop_def Let_def)
  ultimately show ?thesis by (simp add: pending_def)
qed

lemma pending_step: "\<not> is_export e \<Longrightarrow> pending (step e s) = pending s"
proof (cases e)
  case (MoveVolume c v)
  then show ?thesis
    by (cases c) (simp_all add: pending_def in_flight_def export_downloads_def
        voiceGainEffect_def bgGainEffect_def originalGainEffect_def)
next
  case (ClickMute c)
  then show ?thesis
    by (cases c) (simp_all add: pending_def in_flight_def export_downloads_def toggleMute_def
        voiceGainEffect_def bgGainEffect_def originalGainEffect_def)
next
  case VideoEnded
  then show ?thesis
    by (simp add: pending_def in_flight_video_ended export_downloads_def video_ended_frame)
next
  case (RecorderStop rid)
  then show ?thesis using pending_onstop by simp
next
  case (NewAudioData d r)
  then show ?thesis
    by (simp add: pending_def in_flight_def export_downloads_def decodeTTS_def split: sum.splits option.splits)
next
  case (NewBackgroundFile f)
  then show ?thesis
    by (simp add: pending_def in_flight_def export_downloads_def loadBg_def
        split: option.splits decode_result.splits)
next
  case ClickSaveVoice
  then show ?thesis
    by (simp add: pending_def in_flight_def export_downloads_def handleDownloadTTS_def
        export_filename_def split: option.splits)
qed (simp_all add: pending_def in_flight_def export_downloads_def togglePlay_def
    recorder_ondataavailable_def)

lemma pending_run: "\<not> list_ex is_export es \<Longrightarrow> pending (run es s) = pending s"
  by (induction es arbitrary: s) (simp_all add: run_Nil run_Cons pending_step)

lemma performExport_outcome:
  "(recorders (performExport k s) = recorders s
      \<and> (isRendering (performExport k s) \<longrightarrow> isRendering s))
   \<or> (\<exists>r. recorders (performExport k s) = recorders s @ [r] \<and> rec_state r = Recording
         \<and> isRendering (performExport k s))"
  by (simp add: performExport_def Let_def)

lemma performExport_pending:
  "pending (performExport k s) \<le> pending s + 1
   \<and> (isRendering (performExport k s) \<or> isRendering s \<or> pending (performExport k s) = pending s)"
  using performExport_outcome [of k s]
  by (auto simp: pending_def in_flight_def export_downloads_def performExport_gains)

lemma click_export_pending:
  "pending (step (ClickExport k) s) \<le> pending s + 1"
  "isRendering (step (ClickExport k) s) \<or> pending (step (ClickExport k) s) = pending s"
  "isRendering s \<Longrightarrow> step (ClickExport k) s = s"
  using performExport_pending [of k s] by auto

lemma two_clicks:
  "pending (step (ClickExport k2) (step (ClickExport k1) s)) \<le> pending s + 1"
proof -
  define s1 where "s1 = step (ClickExport k1) s"
  have a: "pending s1 \<le> pending s + 1"
    and b: "isRendering s1 \<or> pending s1 = pending s"
    unfolding s1_def by (rule click_export_pending)+
  show ?thesis
  proof (cases "isRendering s1")
    case True
    then have "step (ClickExport k2) s1 = s1" by (rule click_export_pending)
    with a show ?thesis unfolding s1_def by simp
  next
    case False
    with b have "pending s1 = pending s" by simp
    with click_export_pending(1) [of k2 s1] show ?thesis unfolding s1_def by simp
  qed
qed


lemma rec_ok_in_flight:
  assumes "rec_ok l rendering ref"
  shows "length (filter (\<lambda>r. rec_state r \<noteq> Inactive) l) \<le> 1"
    and "filter (\<lambda>r. rec_state r \<noteq> Inactive) l \<noteq> [] \<Longrightarrow> rendering"
proof -
  show "length (filter (\<lambda>r. rec_state r \<noteq> Inactive) l) \<le> 1"
    by (rule filter_at_most_one [where k = "the ref"]) (use assms in \<open>auto simp: rec_ok_def\<close>)
  assume "filter (\<lambda>r. rec_state r \<noteq> Inactive) l \<noteq> []"
  then obtain r where "r \<in> set l" "rec_state r \<noteq> Inactive"
    by (auto simp: filter_empty_conv)
  then obtain i where "i < length l" "rec_state (l ! i) \<noteq> Inactive"
    by (auto simp: in_set_conv_nth)
  with assms show rendering by (auto simp: rec_ok_def)
qed

text \<open>
  Claim C2. In every state the component can reach, at most one export job (a recorder
  that records or whose \<^verbatim>\<open>onstop\<close> is pending) is in flight; while one is, a click on an
  export button changes nothing (the buttons are disabled while \<open>isRendering\<close>); and two
  export clicks in succession, whatever follows them short of a third, add at most one
  export download to those made or pending before.
\<close>

theorem one_export_in_flight:
  "let s = run es (mounted data rate file capture ctx) in
     length (in_flight s) \<le> 1
     \<and> (in_flight s \<noteq> [] \<longrightarrow> step (ClickExport k) s = s)
     \<and> (\<not> list_ex is_export es' \<longrightarrow>
          length (export_downloads (run (ClickExport k1 # ClickExport k2 # es') s))
            \<le> length (export_downloads s) + length (in_flight s) + 1)"
proof -
  define s where "s = run es (mounted data rate file capture ctx)"
  have "rec_inv s" unfolding s_def by (rule reachable_inv)
  then have ok: "rec_ok (recorders s) (isRendering s) (mediaRecorderRef s)"
    by (simp add: rec_inv_def)
  have 1: "length (in_flight s) \<le> 1"
    unfolding in_flight_def by (rule rec_ok_in_flight(1) [OF ok])
  have 2: "step (ClickExport k) s = s" if "in_flight s \<noteq> []"
  proof -
    from that have "isRendering s"
      unfolding in_flight_def by (rule rec_ok_in_flight(2) [OF ok])
    then show ?thesis by (rule click_export_pending)
  qed
  have 3: "length (export_downloads (run (ClickExport k1 # ClickExport k2 # es') s))
      \<le> length (export_downloads s) + length (in_flight s) + 1"
    if "\<not> list_ex is_export es'"
  proof -
    have "pending (run (ClickExport k1 # ClickExport k2 # es') s)
        = pending (step (ClickExport k2) (step (ClickExport k1) s))"
      using pending_run [OF that] by (simp only: run_Cons)
    also have "\<dots> \<le> pending s + 1" by (rule two_clicks)
    finally show ?thesis by (simp add: pending_def)
  qed
  from 1 2 3 show ?thesis unfolding s_def [symmetric] Let_def by blast
qed

lemma scenario_exporting:
  "run [ClickExport Audio] scenario =
     scenario\<lparr>isRendering := True, renderType := Some Audio, dests := 1, destRef := Some 0,
       voiceGain := \<lparr>gain_value = 1, outputs = {StreamDest 0, Destination}\<rparr>,
       bgGain := \<lparr>gain_value = 2 / 10, outputs = {StreamDest 0, Destination}\<rparr>,
       originalGain := \<lparr>gain_value = 5 / 10, outputs = {StreamDest 0, Destination}\<rparr>,
       recorders := [\<lparr>rec_kind = Audio, rec_dest = 0, rec_state = Recording\<rparr>],
       mediaRecorderRef := Some 0,
       audioContextRef := Some (webaudio\<lparr>context_state := Running\<rparr>),
       sources := [voice_source voice5 0, bg_source bg3 (Some 0)],
       voiceSourceRef := Some 0, bgSourceRef := Some 1, video_paused := False, isPlaying := True,
       video_onended := ExportEnded 0\<rparr>"
  by (simp add: run_Nil run_Cons scenario_eq performExport_def pause_def play_def play_rejects_def
      stopSources_eq stopped_def connect_def js_rem_def durations Let_def)

lemma scenario_exported:
  "downloads (run [ClickExport Audio, ClickExport Video, VideoEnded, RecorderStop 0] scenario)
     = [''dubbed_audio_mix.webm'']"
proof -
  have "run [ClickExport Audio, ClickExport Video, VideoEnded, RecorderStop 0] scenario
      = run [ClickExport Video, VideoEnded, RecorderStop 0] (run [ClickExport Audio] scenario)"
    by (simp add: run_Nil run_Cons)
  then show ?thesis
    unfolding scenario_exporting
    by (simp add: run_Nil run_Cons scenario_eq video_ended_def jsx_onEnded_def
        property_onended_def recorder_onstop_def stopSources_eq export_filename_def Let_def)
qed

theorem one_export_in_flight_witness:
  "in_flight (run [ClickExport Audio] scenario) \<noteq> []
   \<and> length (in_flight (run [ClickExport Audio] scenario)) = 1
   \<and> step (ClickExport Video) (run [ClickExport Audio] scenario) = run [ClickExport Audio] scenario
   \<and> \<not> list_ex is_export [VideoEnded, RecorderStop 0]
   \<and> length (export_downloads
        (run [ClickExport Audio, ClickExport Video, VideoEnded, RecorderStop 0] scenario)) = 1"
proof -
  let ?s = "run [ClickExport Audio] scenario"
  have f: "in_flight ?s \<noteq> []" "length (in_flight ?s) = 1"
    unfolding scenario_exporting by (simp_all add: in_flight_def)
  have n: "\<not> list_ex is_export [VideoEnded, RecorderStop 0]" by simp
  have d: "length (export_downloads
      (run [ClickExport Audio, ClickExport Video, VideoEnded, RecorderStop 0] scenario)) = 1"
    by (simp add: export_downloads_def scenario_exported export_filename_def)
  from one_export_in_flight [of "[ClickExport Audio]" "replicate 80000 0" 8000
      "Some (Decoded bg3)" True webaudio Video "[]" Audio Audio, folded scenario_def] f
  have "step (ClickExport Video) ?s = ?s" unfolding Let_def by blast
  with f n d show ?thesis by blast
qed

text \<open>
  The guard is the buttons': \<open>performExport\<close> itself does not look at \<open>isRendering\<close>, and
  called again while a recorder is recording it starts a second one.
\<close>

lemma performExport_not_self_guarded:
  "length (in_flight (performExport Audio (run [ClickExport Audio] scenario))) = 2"
  unfolding scenario_exporting
  by (simp add: scenario_eq performExport_def pause_def play_def play_rejects_def
      stopSources_eq connect_def js_rem_def durations in_flight_def Let_def)

end
